theory Spec2Isabelle
  imports Main
begin

section \<open>Python values used by \<open>acgtag.py\<close>\<close>

text \<open>
  Exceptions the translated code can raise. Every raise is a branch of the model:
  a fallible function returns \<open>error + 'a\<close> with \<open>Inl\<close> for the exception.
\<close>

datatype error = IndexError | KeyError | AttributeError | TypeError

text \<open>
  \<open>node[0].isupper()\<close> on one character. Symbols are modelled as ASCII strings, where the
  uppercase characters are exactly \<open>A\<close> to \<open>Z\<close>.
\<close>

definition isupper :: "char \<Rightarrow> bool" where
  "isupper c = (65 \<le> (of_char c :: nat) \<and> (of_char c :: nat) \<le> 90)"

text \<open>\<open>s.endswith(suf)\<close> and \<open>s.rstrip(chars)\<close>; the latter removes every trailing
  character that is a member of \<open>chars\<close>, which is a set of characters and not a suffix.\<close>

definition endswith :: "string \<Rightarrow> string \<Rightarrow> bool" where
  "endswith s suf = (length suf \<le> length s \<and> drop (length s - length suf) s = suf)"

definition rstrip :: "string \<Rightarrow> string \<Rightarrow> string" where
  "rstrip s chars = rev (dropWhile (\<lambda>c. c \<in> set chars) (rev s))"

text \<open>\<open>sep.join(xs)\<close>.\<close>

fun join :: "string \<Rightarrow> string list \<Rightarrow> string" where
  "join sep [] = []"
| "join sep [x] = x"
| "join sep (x # y # ys) = x @ sep @ join sep (y # ys)"

text \<open>\<open>str(n)\<close> for a non-negative integer, as the f-strings format a counter.\<close>

definition digit_char :: "nat \<Rightarrow> char" where
  "digit_char d = char_of (48 + d)"

fun str_nat :: "nat \<Rightarrow> string" where
  "str_nat n = (if n < 10 then [digit_char n] else str_nat (n div 10) @ [digit_char (n mod 10)])"

declare str_nat.simps [simp del]

section \<open>Trees\<close>

text \<open>
  \<open>ACG.is_nonterminal(node)\<close> is \<open>node[0].isupper()\<close>: indexing the empty string raises
  \<open>IndexError\<close>, indexing \<open>None\<close> raises \<open>TypeError\<close>.
\<close>

definition is_nonterminal :: "string \<Rightarrow> error + bool" where
  "is_nonterminal node = (case node of [] \<Rightarrow> Inl IndexError | c # _ \<Rightarrow> Inr (isupper c))"

text \<open>The fields of class \<open>Tree\<close>, in the order \<open>__init__\<close> assigns them (\<open>identifier\<close> is a reserved word of the theory language, hence \<open>tree_identifier\<close>).\<close>

datatype Tree = Tree
  (tree_identifier: "string option")
  (varname: "string option")
  (children: "Tree list")
  (nonadjoining: bool)
  (footnode: bool)
  (root: string)

text \<open>
  \<open>Tree.__init__(root, children)\<close>. Both parameters default to \<open>None\<close>. The nonadjoining
  test calls \<open>is_nonterminal(root)\<close> first, so a \<open>None\<close> or empty root raises there.
\<close>

definition Tree_init :: "string option \<Rightarrow> Tree list option \<Rightarrow> error + Tree" where
  "Tree_init root0 children0 =
    (let cs = (case children0 of Some c \<Rightarrow> c | None \<Rightarrow> []) in
     case root0 of
       None \<Rightarrow> Inl TypeError
     | Some r \<Rightarrow>
        (case is_nonterminal r of
           Inl e \<Rightarrow> Inl e
         | Inr nt \<Rightarrow>
            (let (r1, na) = (if nt \<and> endswith r ''_NA'' then (rstrip r ''_NA'', True)
                             else (r, False));
                 (r2, fn) = (if endswith r1 ''*'' then (rstrip r1 ''*'', True)
                             else (r1, False))
             in Inr (Tree None None cs na fn r2))))"

text \<open>
  What \<open>sexpdata.loads\<close> returns for a tree description: a symbol or a list. A description
  that is not already enclosed in parentheses is enclosed first, so \<open>NP (john)\<close> is read as
  the list of the symbol \<open>NP\<close> and the list holding the symbol \<open>john\<close>.
\<close>

datatype sexp = Symbol string | SList "sexp list"

text \<open>
  \<open>parseSymList\<close>: the root argument \<open>symList[0].value()\<close> is evaluated before the children
  (an empty list raises \<open>IndexError\<close>, a list in head position has no \<open>value\<close>), then the
  children left to right, then the constructor runs.
\<close>

fun parseSymList :: "sexp \<Rightarrow> error + Tree"
  and parseSymLists :: "sexp list \<Rightarrow> error + Tree list" where
  "parseSymList (SList l) =
    (case l of
       [] \<Rightarrow> Inl IndexError
     | h # rest \<Rightarrow>
        (case h of
           SList _ \<Rightarrow> Inl AttributeError
         | Symbol v \<Rightarrow>
            (case parseSymLists rest of
               Inl e \<Rightarrow> Inl e
             | Inr cs \<Rightarrow> Tree_init (Some v) (Some cs))))"
| "parseSymList (Symbol v) = Tree_init (Some v) (Some [])"
| "parseSymLists [] = Inr []"
| "parseSymLists (x # xs) =
    (case parseSymList x of
       Inl e \<Rightarrow> Inl e
     | Inr t \<Rightarrow> (case parseSymLists xs of Inl e \<Rightarrow> Inl e | Inr ts \<Rightarrow> Inr (t # ts)))"

definition parseTree :: "sexp \<Rightarrow> error + Tree" where
  "parseTree data = parseSymList data"

fun parseTrees :: "sexp list \<Rightarrow> error + Tree list" where
  "parseTrees [] = Inr []"
| "parseTrees (x # xs) =
    (case parseTree x of
       Inl e \<Rightarrow> Inl e
     | Inr t \<Rightarrow> (case parseTrees xs of Inl e \<Rightarrow> Inl e | Inr ts \<Rightarrow> Inr (t # ts)))"

section \<open>The grammar\<close>

record contents =
  c_terminals :: "string list"
  c_nonterminals :: "string list"
  c_initials :: "sexp list"
  c_auxiliaries :: "sexp list"
  c_distinguished :: string

record TAG =
  terminals :: "string list"
  nonterminals :: "string list"
  initials :: "Tree list"
  auxiliaries :: "Tree list"
  distinguished :: string

text \<open>
  One loop of \<open>numberTrees\<close>: each tree gets the prefix followed by the counter, and the
  counter goes up by one. The counter is returned for the next loop.
\<close>

fun number_loop :: "string \<Rightarrow> Tree list \<Rightarrow> nat \<Rightarrow> Tree list \<times> nat" where
  "number_loop pre [] count = ([], count)"
| "number_loop pre (Tree i v cs na fn r # ts) count =
    (let (ts', count') = number_loop pre ts (count + 1)
     in (Tree (Some (pre @ str_nat count)) v cs na fn r # ts', count'))"

definition numberTrees :: "TAG \<Rightarrow> TAG" where
  "numberTrees g =
    (let (is', count1) = number_loop ''C_TI'' (initials g) 0;
         (as', count2) = number_loop ''C_TA'' (auxiliaries g) count1
     in g\<lparr>initials := is', auxiliaries := as'\<rparr>)"

definition TAG_init :: "contents \<Rightarrow> error + TAG" where
  "TAG_init c =
    (case parseTrees (c_initials c) of
       Inl e \<Rightarrow> Inl e
     | Inr is0 \<Rightarrow>
        (case parseTrees (c_auxiliaries c) of
           Inl e \<Rightarrow> Inl e
         | Inr as0 \<Rightarrow>
            Inr (numberTrees \<lparr>terminals = c_terminals c, nonterminals = c_nonterminals c,
                              initials = is0, auxiliaries = as0,
                              distinguished = c_distinguished c\<rparr>)))"

section \<open>Type inference\<close>

text \<open>The three variables the closure \<open>traverse\<close> of \<open>typeForTree\<close> updates.\<close>

record tstate =
  interior_nodes :: "string list"
  substitution_nodes :: "string list"
  footnodeIsNonadjoining :: bool

fun traverse :: "Tree \<Rightarrow> tstate \<Rightarrow> error + tstate"
  and traverse_children :: "Tree list \<Rightarrow> tstate \<Rightarrow> error + tstate" where
  "traverse (Tree i v cs na fn r) s =
    (case is_nonterminal r of
       Inl e \<Rightarrow> Inl e
     | Inr nt \<Rightarrow>
        (let s1 = (if nt \<and> \<not> fn then
                     (if length cs > 0 then
                        (if \<not> na then s\<lparr>interior_nodes := interior_nodes s @ [r @ ''_A'']\<rparr>
                         else s)
                      else
                        (if \<not> na then s\<lparr>substitution_nodes := substitution_nodes s @ [r @ ''_S'']\<rparr>
                         else s))
                   else s)
         in case traverse_children cs s1 of
              Inl e \<Rightarrow> Inl e
            | Inr s2 \<Rightarrow>
               Inr (if fn \<and> na then s2\<lparr>footnodeIsNonadjoining := True\<rparr> else s2)))"
| "traverse_children [] s = Inr s"
| "traverse_children (c # cs) s =
    (case traverse c s of Inl e \<Rightarrow> Inl e | Inr s' \<Rightarrow> traverse_children cs s')"

text \<open>The list \<open>nodes\<close> that \<open>typeForTree\<close> joins, and the type itself.\<close>

definition typeNodes :: "Tree \<Rightarrow> bool \<Rightarrow> error + string list" where
  "typeNodes tree initial =
    (case traverse tree \<lparr>interior_nodes = [], substitution_nodes = [],
                         footnodeIsNonadjoining = False\<rparr> of
       Inl e \<Rightarrow> Inl e
     | Inr s \<Rightarrow>
        (let rt = (if initial then [root tree @ ''_S'']
                   else if footnodeIsNonadjoining s then [root tree @ ''_A'']
                   else [root tree @ ''_A -> '' @ root tree @ ''_A''])
         in Inr (interior_nodes s @ substitution_nodes s @ rt)))"

definition typeForTree :: "Tree \<Rightarrow> bool \<Rightarrow> error + string" where
  "typeForTree tree initial =
    (case typeNodes tree initial of Inl e \<Rightarrow> Inl e | Inr nodes \<Rightarrow> Inr (join '' -> '' nodes))"

section \<open>Signatures and lexicons\<close>

record Signature =
  sig_name :: string
  sig_types :: "string list"
  sig_constants :: "(string \<times> string) list"

definition Signature_init :: "string \<Rightarrow> Signature" where
  "Signature_init n = \<lparr>sig_name = n, sig_types = [], sig_constants = []\<rparr>"

definition addType :: "Signature \<Rightarrow> string \<Rightarrow> Signature" where
  "addType sg t = sg\<lparr>sig_types := sig_types sg @ [t]\<rparr>"

definition addConstant :: "Signature \<Rightarrow> string \<Rightarrow> string \<Rightarrow> Signature" where
  "addConstant sg c t = sg\<lparr>sig_constants := sig_constants sg @ [(c, t)]\<rparr>"

record Lexicon =
  lex_name :: string
  lex_first :: string
  lex_second :: string
  lex_mappings :: "(string \<times> string) list"

definition Lexicon_init :: "string \<Rightarrow> string \<Rightarrow> string \<Rightarrow> Lexicon" where
  "Lexicon_init n f s = \<lparr>lex_name = n, lex_first = f, lex_second = s, lex_mappings = []\<rparr>"

definition addMapping :: "Lexicon \<Rightarrow> string \<Rightarrow> string \<Rightarrow> Lexicon" where
  "addMapping lx k v = lx\<lparr>lex_mappings := lex_mappings lx @ [(k, v)]\<rparr>"

record ComposedLexicon =
  cl_name :: string
  cl_first :: string
  cl_second :: string

text \<open>The list \<open>self.lexicons\<close> holds objects of both lexicon classes.\<close>

datatype lexicon_obj = Plain Lexicon | Composed ComposedLexicon

text \<open>An entry \<open>{"symbol": ..., "size": ...}\<close> of \<open>metadata["derivedTreeConstants"]\<close>.\<close>

record derived_constant =
  const_symbol :: string
  const_size :: nat

text \<open>
  A Python \<open>dict\<close> with string keys: an association list in insertion order. Assigning to
  a key that is present replaces its value in place; a new key goes to the end. Reading an
  absent key raises \<open>KeyError\<close>.
\<close>

type_synonym 'v dict = "(string \<times> 'v) list"

definition dict_set :: "'v dict \<Rightarrow> string \<Rightarrow> 'v \<Rightarrow> 'v dict" where
  "dict_set d k v =
    (if k \<in> set (map fst d) then map (\<lambda>(k', v'). if k' = k then (k', v) else (k', v')) d
     else d @ [(k, v)])"

definition dict_get :: "'v dict \<Rightarrow> string \<Rightarrow> error + 'v" where
  "dict_get d k = (case map_of d k of None \<Rightarrow> Inl KeyError | Some v \<Rightarrow> Inr v)"

record ACG =
  tag :: TAG
  signatures :: "Signature list"
  lexicons :: "lexicon_obj list"
  metadata :: "derived_constant list dict"

text \<open>An f-string prints a field that still holds \<open>None\<close> as the text \<open>None\<close>.\<close>

definition fmt :: "string option \<Rightarrow> string" where
  "fmt x = (case x of None \<Rightarrow> ''None'' | Some s \<Rightarrow> s)"

section \<open>The derivation-trees signature\<close>

fun add_nonterminal_types :: "string list \<Rightarrow> Signature \<Rightarrow> Signature" where
  "add_nonterminal_types [] sg = sg"
| "add_nonterminal_types (n # ns) sg =
    add_nonterminal_types ns (addType (addType sg (n @ ''_S'')) (n @ ''_A''))"

fun add_tree_constants :: "bool \<Rightarrow> Tree list \<Rightarrow> Signature \<Rightarrow> error + Signature" where
  "add_tree_constants initial [] sg = Inr sg"
| "add_tree_constants initial (t # ts) sg =
    (case typeForTree t initial of
       Inl e \<Rightarrow> Inl e
     | Inr ty \<Rightarrow> add_tree_constants initial ts (addConstant sg (fmt (tree_identifier t)) ty))"

fun add_identity_constants :: "string list \<Rightarrow> Signature \<Rightarrow> Signature" where
  "add_identity_constants [] sg = sg"
| "add_identity_constants (n # ns) sg =
    add_identity_constants ns (addConstant sg (''I_'' @ n) (n @ ''_A''))"

definition generateDerivationTrees :: "ACG \<Rightarrow> error + ACG" where
  "generateDerivationTrees self =
    (let sg0 = add_nonterminal_types (nonterminals (tag self)) (Signature_init ''Derivation_trees'')
     in case add_tree_constants True (initials (tag self)) sg0 of
          Inl e \<Rightarrow> Inl e
        | Inr sg1 \<Rightarrow>
           (case add_tree_constants False (auxiliaries (tag self)) sg1 of
              Inl e \<Rightarrow> Inl e
            | Inr sg2 \<Rightarrow>
               Inr (self\<lparr>signatures := signatures self
                            @ [add_identity_constants (nonterminals (tag self)) sg2]\<rparr>)))"

section \<open>Branching analysis\<close>

text \<open>The dict comprehension \<open>{ nonterminal: 0 for nonterminal in nonterminals }\<close>.\<close>

fun init_branching :: "string list \<Rightarrow> nat dict \<Rightarrow> nat dict" where
  "init_branching [] d = d"
| "init_branching (n # ns) d = init_branching ns (dict_set d n 0)"

text \<open>
  The closure \<open>traverse\<close> of \<open>generateDerivedTreeConstants\<close>. The loop over the children
  is inside the test for a nonterminal root.
\<close>

fun traverse_branching :: "Tree \<Rightarrow> nat dict \<Rightarrow> error + nat dict"
  and traverse_branching_children :: "Tree list \<Rightarrow> nat dict \<Rightarrow> error + nat dict" where
  "traverse_branching (Tree i v cs na fn r) b =
    (case is_nonterminal r of
       Inl e \<Rightarrow> Inl e
     | Inr nt \<Rightarrow>
        (if nt then
           (case dict_get b r of
              Inl e \<Rightarrow> Inl e
            | Inr m \<Rightarrow>
               traverse_branching_children cs
                 (if length cs > m then dict_set b r (length cs) else b))
         else Inr b))"
| "traverse_branching_children [] b = Inr b"
| "traverse_branching_children (c # cs) b =
    (case traverse_branching c b of
       Inl e \<Rightarrow> Inl e
     | Inr b' \<Rightarrow> traverse_branching_children cs b')"

text \<open>The entries appended for one key of \<open>branching\<close>: \<open>range(1, branching[n] + 1)\<close>.\<close>

definition constants_for :: "string \<Rightarrow> nat \<Rightarrow> derived_constant list" where
  "constants_for n m =
    map (\<lambda>i. \<lparr>const_symbol = n @ ''_'' @ str_nat i, const_size = i\<rparr>) [1 ..< m + 1]"

definition branching_constants :: "nat dict \<Rightarrow> derived_constant list" where
  "branching_constants b = concat (map (\<lambda>(n, m). constants_for n m) b)"

definition branching_analysis :: "TAG \<Rightarrow> error + nat dict" where
  "branching_analysis g =
    traverse_branching_children (initials g @ auxiliaries g) (init_branching (nonterminals g) [])"

definition generateDerivedTreeConstants :: "ACG \<Rightarrow> error + ACG" where
  "generateDerivedTreeConstants self =
    (case branching_analysis (tag self) of
       Inl e \<Rightarrow> Inl e
     | Inr b \<Rightarrow>
        Inr (self\<lparr>metadata := dict_set (metadata self) ''derivedTreeConstants''
                                  (branching_constants b)\<rparr>))"

section \<open>The derived-trees and string signatures\<close>

definition treeTypeOfLength :: "nat \<Rightarrow> string" where
  "treeTypeOfLength x = join '' -> '' (replicate x ''tree'')"

fun add_terminal_constants :: "string list \<Rightarrow> string \<Rightarrow> Signature \<Rightarrow> Signature" where
  "add_terminal_constants [] ty sg = sg"
| "add_terminal_constants (t # ts) ty sg = add_terminal_constants ts ty (addConstant sg t ty)"

fun add_derived_constants :: "derived_constant list \<Rightarrow> Signature \<Rightarrow> Signature" where
  "add_derived_constants [] sg = sg"
| "add_derived_constants (c # cs) sg =
    add_derived_constants cs
      (addConstant sg (const_symbol c) (treeTypeOfLength (const_size c + 1)))"

definition generateDerivedTrees :: "ACG \<Rightarrow> error + ACG" where
  "generateDerivedTrees self =
    (let TREE = treeTypeOfLength 1;
         sg0 = addType (Signature_init ''Derived_trees'') TREE;
         sg1 = add_terminal_constants (terminals (tag self)) TREE sg0
     in case dict_get (metadata self) ''derivedTreeConstants'' of
          Inl e \<Rightarrow> Inl e
        | Inr cs \<Rightarrow>
           Inr (self\<lparr>signatures := signatures self
                        @ [addConstant (add_derived_constants cs sg1) ''Empty'' TREE]\<rparr>))"

definition generateStringSignature :: "ACG \<Rightarrow> ACG" where
  "generateStringSignature self =
    (let sg0 = addType (addType (Signature_init ''Strings'') ''o'') ''string = o->o'';
         sg1 = addConstant sg0 ''infix + = lambda x y z. x (y z)'' ''string -> string -> string'';
         sg2 = add_terminal_constants (terminals (tag self)) ''string'' sg1
     in self\<lparr>signatures := signatures self
                 @ [addConstant sg2 ''E = lambda lvar. lvar'' ''string'']\<rparr>)"

section \<open>Term realization\<close>

text \<open>The counter and the two lists the closure \<open>varTraverse\<close> updates.\<close>

record vstate =
  var_i :: nat
  interiorVars :: "string list"
  substitutionVars :: "string list"

text \<open>
  \<open>varTraverse\<close> writes \<open>varname\<close> into the node it visits, so the model returns the
  annotated tree together with the state. The name is assigned before the root is tested.
\<close>

fun varTraverse :: "Tree \<Rightarrow> vstate \<Rightarrow> error + (Tree \<times> vstate)"
  and varTraverse_children :: "Tree list \<Rightarrow> vstate \<Rightarrow> error + (Tree list \<times> vstate)" where
  "varTraverse (Tree i v cs na fn r) s =
    (let vn = ''lvar'' @ str_nat (var_i s) in
     case is_nonterminal r of
       Inl e \<Rightarrow> Inl e
     | Inr nt \<Rightarrow>
        (let s1 = (if nt then
                     (if length cs > 0 then
                        (if \<not> na then s\<lparr>interiorVars := interiorVars s @ [vn]\<rparr> else s)
                      else
                        (if \<not> na then s\<lparr>substitutionVars := substitutionVars s @ [vn]\<rparr> else s))
                     \<lparr>var_i := var_i s + 1\<rparr>
                   else s)
         in case varTraverse_children cs s1 of
              Inl e \<Rightarrow> Inl e
            | Inr (cs', s2) \<Rightarrow> Inr (Tree i (Some vn) cs' na fn r, s2)))"
| "varTraverse_children [] s = Inr ([], s)"
| "varTraverse_children (c # cs) s =
    (case varTraverse c s of
       Inl e \<Rightarrow> Inl e
     | Inr (c', s') \<Rightarrow>
        (case varTraverse_children cs s' of
           Inl e \<Rightarrow> Inl e
         | Inr (cs', s'') \<Rightarrow> Inr (c' # cs', s'')))"

fun constructExpression :: "Tree \<Rightarrow> error + string"
  and constructExpressions :: "Tree list \<Rightarrow> error + string list" where
  "constructExpression (Tree i v cs na fn r) =
    (case is_nonterminal r of
       Inl e \<Rightarrow> Inl e
     | Inr nt \<Rightarrow>
        (if \<not> nt then Inr r
         else if fn then (if na then Inr ''lvar'' else Inr (fmt v @ '' lvar''))
         else
           (case constructExpressions cs of
              Inl e \<Rightarrow> Inl e
            | Inr childExpressions \<Rightarrow>
               (if na then
                  Inr (''('' @ r @ ''_'' @ str_nat (length childExpressions) @ '' ''
                       @ join '' '' childExpressions @ '')'')
                else
                  Inr (fmt v @ '' ('' @ r @ ''_'' @ str_nat (length childExpressions) @ '' ''
                       @ join '' '' childExpressions @ '')'')))))"
| "constructExpressions [] = Inr []"
| "constructExpressions (c # cs) =
    (case constructExpression c of
       Inl e \<Rightarrow> Inl e
     | Inr x \<Rightarrow>
        (case constructExpressions cs of
           Inl e \<Rightarrow> Inl e
         | Inr xs \<Rightarrow> Inr ((''('' @ x @ '')'') # xs)))"

text \<open>
  The list \<open>allVars\<close> of bound variables, computed on the annotated copy, and the whole
  realization \<open>lambda v1 ... vk. body\<close>.
\<close>

definition allVars :: "Tree \<Rightarrow> bool \<Rightarrow> error + string list" where
  "allVars tree initial =
    (case varTraverse tree \<lparr>var_i = 0, interiorVars = [], substitutionVars = []\<rparr> of
       Inl e \<Rightarrow> Inl e
     | Inr (tree', s) \<Rightarrow>
        (let footnodeVars = (if initial = False then [''lvar''] else [])
         in Inr (interiorVars s @ substitutionVars s @ footnodeVars)))"

definition lambdaRealizationOfTree :: "Tree \<Rightarrow> bool \<Rightarrow> error + string" where
  "lambdaRealizationOfTree tree initial =
    (case varTraverse tree \<lparr>var_i = 0, interiorVars = [], substitutionVars = []\<rparr> of
       Inl e \<Rightarrow> Inl e
     | Inr (tree', s) \<Rightarrow>
        (let footnodeVars = (if initial = False then [''lvar''] else []);
             allVars = interiorVars s @ substitutionVars s @ footnodeVars;
             lambdaVars = ''lambda '' @ join '' '' allVars @ ''.''
         in case constructExpression tree' of
              Inl e \<Rightarrow> Inl e
            | Inr expr \<Rightarrow> Inr (lambdaVars @ '' '' @ expr)))"

section \<open>The lexicons\<close>

fun add_type_mappings :: "string list \<Rightarrow> Lexicon \<Rightarrow> Lexicon" where
  "add_type_mappings [] lx = lx"
| "add_type_mappings (n # ns) lx =
    add_type_mappings ns (addMapping (addMapping lx (n @ ''_S'') ''tree'') (n @ ''_A'') ''tree -> tree'')"

fun add_tree_mappings :: "bool \<Rightarrow> Tree list \<Rightarrow> Lexicon \<Rightarrow> error + Lexicon" where
  "add_tree_mappings initial [] lx = Inr lx"
| "add_tree_mappings initial (t # ts) lx =
    (case lambdaRealizationOfTree t initial of
       Inl e \<Rightarrow> Inl e
     | Inr expr \<Rightarrow> add_tree_mappings initial ts (addMapping lx (fmt (tree_identifier t)) expr))"

fun add_identity_mappings :: "string list \<Rightarrow> Lexicon \<Rightarrow> Lexicon" where
  "add_identity_mappings [] lx = lx"
| "add_identity_mappings (n # ns) lx =
    add_identity_mappings ns (addMapping lx (''I_'' @ n) ''lambda lvar. lvar'')"

definition generateAbsLexicon :: "ACG \<Rightarrow> error + ACG" where
  "generateAbsLexicon self =
    (let lx0 = add_type_mappings (nonterminals (tag self))
                 (Lexicon_init ''Abs'' ''Derivation_trees'' ''Derived_trees'')
     in case add_tree_mappings True (initials (tag self)) lx0 of
          Inl e \<Rightarrow> Inl e
        | Inr lx1 \<Rightarrow>
           (case add_tree_mappings False (auxiliaries (tag self)) lx1 of
              Inl e \<Rightarrow> Inl e
            | Inr lx2 \<Rightarrow>
               Inr (self\<lparr>lexicons := lexicons self
                            @ [Plain (add_identity_mappings (nonterminals (tag self)) lx2)]\<rparr>)))"

definition concatFunctionOfLength :: "nat \<Rightarrow> string" where
  "concatFunctionOfLength len =
    (let variables = map (\<lambda>i. ''x'' @ str_nat i) [0 ..< len]
     in ''lambda '' @ join '' '' variables @ ''. '' @ join '' + '' variables)"

fun add_terminal_mappings :: "string list \<Rightarrow> Lexicon \<Rightarrow> Lexicon" where
  "add_terminal_mappings [] lx = lx"
| "add_terminal_mappings (t # ts) lx = add_terminal_mappings ts (addMapping lx t t)"

fun add_concat_mappings :: "derived_constant list \<Rightarrow> Lexicon \<Rightarrow> Lexicon" where
  "add_concat_mappings [] lx = lx"
| "add_concat_mappings (c # cs) lx =
    add_concat_mappings cs (addMapping lx (const_symbol c) (concatFunctionOfLength (const_size c)))"

definition generateYieldLexicons :: "ACG \<Rightarrow> error + ACG" where
  "generateYieldLexicons self =
    (let lx0 = addMapping (Lexicon_init ''Yield'' ''Derived_trees'' ''Strings'') ''tree'' ''string'';
         lx1 = add_terminal_mappings (terminals (tag self)) lx0
     in case dict_get (metadata self) ''derivedTreeConstants'' of
          Inl e \<Rightarrow> Inl e
        | Inr cs \<Rightarrow>
           Inr (self\<lparr>lexicons := lexicons self
                        @ [Plain (addMapping (add_concat_mappings cs lx1) ''Empty'' ''E'')]\<rparr>))"

definition generateFullLexicon :: "ACG \<Rightarrow> ACG" where
  "generateFullLexicon self =
    self\<lparr>lexicons := lexicons self
           @ [Composed \<lparr>cl_name = ''Full'', cl_first = ''Abs'', cl_second = ''Yield''\<rparr>]\<rparr>"

section \<open>The pipeline and the output document\<close>

text \<open>
  \<open>generateACG\<close> runs the seven steps in their fixed order; an exception in one step ends
  the run. The progress messages printed to standard output, and the tree printed by
  \<open>lambdaRealizationOfTree\<close>, are not part of the document and are left out.
\<close>

definition generateACG :: "ACG \<Rightarrow> error + ACG" where
  "generateACG self =
    (case generateDerivationTrees self of
       Inl e \<Rightarrow> Inl e
     | Inr a1 \<Rightarrow>
        (case generateDerivedTreeConstants a1 of
           Inl e \<Rightarrow> Inl e
         | Inr a2 \<Rightarrow>
            (case generateDerivedTrees a2 of
               Inl e \<Rightarrow> Inl e
             | Inr a3 \<Rightarrow>
                (case generateAbsLexicon (generateStringSignature a3) of
                   Inl e \<Rightarrow> Inl e
                 | Inr a5 \<Rightarrow>
                    (case generateYieldLexicons a5 of
                       Inl e \<Rightarrow> Inl e
                     | Inr a6 \<Rightarrow> Inr (generateFullLexicon a6))))))"

definition ACG_init :: "TAG \<Rightarrow> error + ACG" where
  "ACG_init g = generateACG \<lparr>tag = g, signatures = [], lexicons = [], metadata = []\<rparr>"

text \<open>The text each \<open>output\<close> method writes; \<open>nl\<close> is the line feed.\<close>

definition nl :: string where
  "nl = [char_of (10 :: nat)]"

definition Signature_output :: "Signature \<Rightarrow> string" where
  "Signature_output sg =
    ''signature '' @ sig_name sg @ '' = '' @ nl
    @ concat (map (\<lambda>t. ''    '' @ t @ '': type;'' @ nl) (sig_types sg))
    @ nl
    @ concat (map (\<lambda>(c, t). ''    '' @ c @ '': '' @ t @ '';'' @ nl) (sig_constants sg))
    @ ''end'' @ nl @ nl"

definition Lexicon_output :: "Lexicon \<Rightarrow> string" where
  "Lexicon_output lx =
    ''lexicon '' @ lex_name lx @ ''('' @ lex_first lx @ ''): '' @ lex_second lx @ '' = '' @ nl
    @ concat (map (\<lambda>(k, v). ''    '' @ k @ '' := '' @ v @ '';'' @ nl) (lex_mappings lx))
    @ ''end'' @ nl @ nl"

definition ComposedLexicon_output :: "ComposedLexicon \<Rightarrow> string" where
  "ComposedLexicon_output cl =
    ''lexicon '' @ cl_name cl @ '' = '' @ cl_second cl @ '' << '' @ cl_first cl @ nl @ nl"

fun lexicon_output :: "lexicon_obj \<Rightarrow> string" where
  "lexicon_output (Plain lx) = Lexicon_output lx"
| "lexicon_output (Composed cl) = ComposedLexicon_output cl"

definition ACG_output :: "ACG \<Rightarrow> string" where
  "ACG_output self =
    concat (map Signature_output (signatures self)) @ concat (map lexicon_output (lexicons self))"

text \<open>\<open>main\<close> after the input file has been read: build the grammar, generate, write.\<close>

definition main :: "contents \<Rightarrow> error + string" where
  "main c =
    (case TAG_init c of
       Inl e \<Rightarrow> Inl e
     | Inr g \<Rightarrow> (case ACG_init g of Inl e \<Rightarrow> Inl e | Inr acg \<Rightarrow> Inr (ACG_output acg)))"

section \<open>Notions used to state the properties\<close>

text \<open>The classification of a symbol by its first character, where it does not raise.\<close>

definition is_nt :: "string \<Rightarrow> bool" where
  "is_nt r = (case r of [] \<Rightarrow> False | c # _ \<Rightarrow> isupper c)"

text \<open>All nodes of a tree in depth-first pre-order.\<close>

fun nodes :: "Tree \<Rightarrow> Tree list" where
  "nodes (Tree i v cs na fn r) = Tree i v cs na fn r # concat (map nodes cs)"

definition symbols_nonempty :: "Tree \<Rightarrow> bool" where
  "symbols_nonempty t = (\<forall>n \<in> set (nodes t). root n \<noteq> [])"

text \<open>
  Adjunction sites: nonterminal nodes with children that are neither footnodes nor
  nonadjoining. Substitution sites: the same, for leaves.
\<close>

definition adjunction_sites :: "Tree \<Rightarrow> Tree list" where
  "adjunction_sites t =
    filter (\<lambda>n. is_nt (root n) \<and> \<not> footnode n \<and> \<not> nonadjoining n \<and> children n \<noteq> []) (nodes t)"

definition substitution_sites :: "Tree \<Rightarrow> Tree list" where
  "substitution_sites t =
    filter (\<lambda>n. is_nt (root n) \<and> \<not> footnode n \<and> \<not> nonadjoining n \<and> children n = []) (nodes t)"

definition has_nonadjoining_footnode :: "Tree \<Rightarrow> bool" where
  "has_nonadjoining_footnode t = (\<exists>n \<in> set (nodes t). footnode n \<and> nonadjoining n)"

text \<open>The grammar of concrete scenario 1, as the reader of tree descriptions delivers it.\<close>

definition scenario_1 :: contents where
  "scenario_1 =
    \<lparr>c_terminals = [''john'', ''sleeps''], c_nonterminals = [''S'', ''NP'', ''VP''],
     c_initials = [SList [Symbol ''S'', SList [Symbol ''NP''],
                          SList [Symbol ''VP'', Symbol ''sleeps'']],
                   SList [Symbol ''NP'', Symbol ''john'']],
     c_auxiliaries = [], c_distinguished = ''S''\<rparr>"

text \<open>The constants of the generated signature of a given name, and the type of one of them.\<close>

definition signature_constants :: "string \<Rightarrow> contents \<Rightarrow> error + (string \<times> string) list" where
  "signature_constants n c =
    (case TAG_init c of
       Inl e \<Rightarrow> Inl e
     | Inr g \<Rightarrow>
        (case ACG_init g of
           Inl e \<Rightarrow> Inl e
         | Inr a \<Rightarrow>
            Inr (concat (map sig_constants (filter (\<lambda>sg. sig_name sg = n) (signatures a))))))"

definition constant_type :: "string \<Rightarrow> contents \<Rightarrow> string \<Rightarrow> error + string option" where
  "constant_type n c k =
    (case signature_constants n c of Inl e \<Rightarrow> Inl e | Inr cs \<Rightarrow> Inr (map_of cs k))"

text \<open>A tree with the identifier field set, everything else kept.\<close>

fun with_identifier :: "string \<Rightarrow> Tree \<Rightarrow> Tree" where
  "with_identifier s (Tree i v cs na fn r) = Tree (Some s) v cs na fn r"

text \<open>
  The state \<open>traverse\<close> leaves behind when it has gone through a list of trees, starting
  from a given state.
\<close>

definition absorb_sites :: "tstate \<Rightarrow> Tree list \<Rightarrow> tstate" where
  "absorb_sites s ts =
    \<lparr>interior_nodes = interior_nodes s
        @ map (\<lambda>n. root n @ ''_A'') (concat (map adjunction_sites ts)),
     substitution_nodes = substitution_nodes s
        @ map (\<lambda>n. root n @ ''_S'') (concat (map substitution_sites ts)),
     footnodeIsNonadjoining =
        (footnodeIsNonadjoining s \<or> (\<exists>t \<in> set ts. has_nonadjoining_footnode t))\<rparr>"

text \<open>
  Nodes that get a bound variable in the realized term: nonterminal nodes not marked
  nonadjoining, footnodes included. The count the specification gives leaves footnodes out.
\<close>

definition bound_sites :: "Tree \<Rightarrow> Tree list" where
  "bound_sites t = filter (\<lambda>n. is_nt (root n) \<and> \<not> nonadjoining n) (nodes t)"

definition binder_count :: "Tree \<Rightarrow> bool \<Rightarrow> error + nat" where
  "binder_count t initial =
    (case allVars t initial of Inl e \<Rightarrow> Inl e | Inr vs \<Rightarrow> Inr (length vs))"

definition claimed_binder_count :: "Tree \<Rightarrow> bool \<Rightarrow> nat" where
  "claimed_binder_count t initial =
    length (filter (\<lambda>n. is_nt (root n) \<and> \<not> footnode n \<and> \<not> nonadjoining n) (nodes t))
    + (if initial then 0 else 1)"

text \<open>
  Example trees: the initial trees \<open>NP (john)\<close> and \<open>S (NP) (VP (sleeps))\<close>, the auxiliary
  tree \<open>VP (ADV) (VP*)\<close>, and the auxiliary tree \<open>VP (V (VP*_NA))\<close> whose footnode is
  nonadjoining and lies two levels below the root.
\<close>

definition john_tree :: Tree where
  "john_tree = Tree None None [Tree None None [] False False ''john''] False False ''NP''"

definition sleeps_tree :: Tree where
  "sleeps_tree =
    Tree None None
      [Tree None None [] False False ''NP'',
       Tree None None [Tree None None [] False False ''sleeps''] False False ''VP'']
      False False ''S''"

definition adv_tree :: Tree where
  "adv_tree =
    Tree None None
      [Tree None None [] False False ''ADV'', Tree None None [] False True ''VP'']
      False False ''VP''"

definition deep_foot_tree :: Tree where
  "deep_foot_tree =
    Tree None None
      [Tree None None [Tree None None [] True True ''VP''] False False ''V'']
      False False ''VP''"

definition example_tag :: TAG where
  "example_tag =
    \<lparr>terminals = [''john'', ''sleeps''], nonterminals = [''S'', ''NP'', ''VP'', ''ADV'', ''V''],
     initials = [sleeps_tree, john_tree], auxiliaries = [adv_tree, deep_foot_tree],
     distinguished = ''S''\<rparr>"

section \<open>Notions for the branching analysis\<close>

text \<open>
  The nodes the branching traversal visits: a tree's root, and the children of a visited node
  whose symbol is uppercase-initial. The visited nodes with an uppercase-initial symbol are
  the ones whose symbol is looked up and whose children are counted.
\<close>

fun reached :: "Tree \<Rightarrow> Tree list" where
  "reached (Tree i v cs na fn r) =
    Tree i v cs na fn r # (if is_nt r then concat (map reached cs) else [])"

definition counted :: "Tree \<Rightarrow> Tree list" where
  "counted t = filter (\<lambda>n. is_nt (root n)) (reached t)"

definition grammar_trees :: "TAG \<Rightarrow> Tree list" where
  "grammar_trees g = initials g @ auxiliaries g"

definition all_nodes :: "TAG \<Rightarrow> Tree list" where
  "all_nodes g = concat (map nodes (grammar_trees g))"

definition reached_nodes :: "TAG \<Rightarrow> Tree list" where
  "reached_nodes g = concat (map reached (grammar_trees g))"

definition analysed :: "TAG \<Rightarrow> Tree list" where
  "analysed g = concat (map counted (grammar_trees g))"

text \<open>The largest number of children among the nodes of a list that carry a given symbol.\<close>

definition max_children :: "string \<Rightarrow> Tree list \<Rightarrow> nat" where
  "max_children N ns =
    foldr max (map (\<lambda>n. length (children n)) (filter (\<lambda>n. root n = N) ns)) 0"

definition true_max_children :: "TAG \<Rightarrow> string \<Rightarrow> nat" where
  "true_max_children g N = max_children N (all_nodes g)"

definition reached_max_children :: "TAG \<Rightarrow> string \<Rightarrow> nat" where
  "reached_max_children g N = max_children N (analysed g)"

text \<open>The table after the nodes of a list have been looked up and counted.\<close>

definition absorb_branching :: "nat dict \<Rightarrow> Tree list \<Rightarrow> nat dict" where
  "absorb_branching b ns = map (\<lambda>(k, m). (k, max m (max_children k ns))) b"

text \<open>The keys of the table in insertion order: the first occurrences of the nonterminals.\<close>

fun add_keys :: "string list \<Rightarrow> string list \<Rightarrow> string list" where
  "add_keys ks [] = ks"
| "add_keys ks (n # ns) = add_keys (if n \<in> set ks then ks else ks @ [n]) ns"

text \<open>
  Example grammars: one tree whose root \<open>x\<close> is lowercase and has the child \<open>NP\<close> with two
  children; one tree \<open>np (john)\<close> with \<open>np\<close> declared as a nonterminal; one tree \<open>S (*)\<close>.
\<close>

definition pruned_tree :: Tree where
  "pruned_tree =
    Tree None None
      [Tree None None
         [Tree None None [] False False ''a'', Tree None None [] False False ''b'']
         False False ''NP'']
      False False ''x''"

definition pruned_tag :: TAG where
  "pruned_tag = \<lparr>terminals = [''x'', ''a'', ''b''], nonterminals = [''NP''],
                  initials = [pruned_tree], auxiliaries = [], distinguished = ''NP''\<rparr>"

definition hidden_tag :: TAG where
  "hidden_tag = \<lparr>terminals = [''x'', ''a'', ''b''], nonterminals = [],
                  initials = [pruned_tree], auxiliaries = [], distinguished = ''NP''\<rparr>"

definition lower_tree :: Tree where
  "lower_tree = Tree None None [Tree None None [] False False ''john''] False False ''np''"

definition lower_tag :: TAG where
  "lower_tag = \<lparr>terminals = [''john''], nonterminals = [''np''],
                 initials = [lower_tree], auxiliaries = [], distinguished = ''np''\<rparr>"

definition star_tree :: Tree where
  "star_tree = Tree None None [Tree None None [] False True []] False False ''S''"

definition star_tag :: TAG where
  "star_tag = \<lparr>terminals = [], nonterminals = [''S''],
                initials = [star_tree], auxiliaries = [], distinguished = ''S''\<rparr>"

definition undeclared_tag :: TAG where
  "undeclared_tag = \<lparr>terminals = [''john'', ''sleeps''], nonterminals = [''S'', ''NP''],
                      initials = [sleeps_tree, john_tree], auxiliaries = [],
                      distinguished = ''S''\<rparr>"

text \<open>
  The constants the analysis hands to the derived-trees signature, and the precondition
  "every uppercase-initial symbol of every elementary tree is a declared nonterminal".
\<close>

definition derived_tree_constants :: "TAG \<Rightarrow> error + derived_constant list" where
  "derived_tree_constants g =
    (case branching_analysis g of Inl e \<Rightarrow> Inl e | Inr b \<Rightarrow> Inr (branching_constants b))"

definition uppercase_symbols_declared :: "TAG \<Rightarrow> bool" where
  "uppercase_symbols_declared g =
    (\<forall>n \<in> set (all_nodes g). is_nt (root n) \<longrightarrow> root n \<in> set (nonterminals g))"

definition example_acg :: ACG where
  "example_acg = \<lparr>tag = example_tag, signatures = [], lexicons = [], metadata = []\<rparr>"

definition example_acg_constants :: ACG where
  "example_acg_constants =
    example_acg\<lparr>metadata :=
      [(''derivedTreeConstants'',
        [\<lparr>const_symbol = ''S_1'', const_size = 1\<rparr>, \<lparr>const_symbol = ''S_2'', const_size = 2\<rparr>,
         \<lparr>const_symbol = ''NP_1'', const_size = 1\<rparr>,
         \<lparr>const_symbol = ''VP_1'', const_size = 1\<rparr>, \<lparr>const_symbol = ''VP_2'', const_size = 2\<rparr>,
         \<lparr>const_symbol = ''V_1'', const_size = 1\<rparr>])]\<rparr>"

definition undeclared_acg :: ACG where
  "undeclared_acg = \<lparr>tag = undeclared_tag, signatures = [], lexicons = [], metadata = []\<rparr>"

section \<open>Trees as objects in a store\<close>

text \<open>
  \<open>lambdaRealizationOfTree\<close> assigns to \<open>tree.varname\<close>, so whether the caller's tree changes
  depends on which objects are written. Here a \<open>Tree\<close> object is a node in a store: an
  address is an index into the list of all objects, the \<open>children\<close> field holds addresses, and
  a new object is appended at the end. A recursion over the object graph takes fuel; running
  out of fuel, like following an address outside the store, gives \<open>None\<close>.
\<close>

type_synonym addr = nat

record node =
  n_identifier :: "string option"
  n_varname :: "string option"
  n_children :: "addr list"
  n_nonadjoining :: bool
  n_footnode :: bool
  n_root :: string

type_synonym heap = "node list"

text \<open>
  \<open>copy.deepcopy(tree)\<close>: the new object is created first, then its fields are copied, the
  children one after the other. The memo table of \<open>deepcopy\<close> is left out: it is consulted
  only for an object that is reached a second time, and the trees built by \<open>parseSymList\<close>
  share no nodes.
\<close>

fun deepcopy :: "nat \<Rightarrow> heap \<Rightarrow> addr \<Rightarrow> (addr \<times> heap) option"
  and deepcopy_list :: "nat \<Rightarrow> heap \<Rightarrow> addr list \<Rightarrow> (addr list \<times> heap) option" where
  "deepcopy 0 h a = None"
| "deepcopy (Suc fuel) h a =
    (if a < length h then
       (let y = length h; x = h ! a in
        case deepcopy_list fuel (h @ [x\<lparr>n_children := []\<rparr>]) (n_children x) of
          None \<Rightarrow> None
        | Some (cs', h') \<Rightarrow> Some (y, h'[y := x\<lparr>n_children := cs'\<rparr>]))
     else None)"
| "deepcopy_list fuel h [] = Some ([], h)"
| "deepcopy_list fuel h (c # cs) =
    (case deepcopy fuel h c of
       None \<Rightarrow> None
     | Some (c', h1) \<Rightarrow>
        (case deepcopy_list fuel h1 cs of
           None \<Rightarrow> None
         | Some (cs', h2) \<Rightarrow> Some (c' # cs', h2)))"

text \<open>
  \<open>varTraverse\<close> on the store. The assignment to \<open>varname\<close> comes first; an exception leaves
  the store as it is at that point.
\<close>

fun varTraverse_h :: "nat \<Rightarrow> heap \<Rightarrow> addr \<Rightarrow> vstate \<Rightarrow> (heap \<times> (error + vstate)) option"
  and varTraverse_list :: "nat \<Rightarrow> heap \<Rightarrow> addr list \<Rightarrow> vstate \<Rightarrow> (heap \<times> (error + vstate)) option"
  where
  "varTraverse_h 0 h a s = None"
| "varTraverse_h (Suc fuel) h a s =
    (if a < length h then
       (let vn = ''lvar'' @ str_nat (var_i s);
            h1 = h[a := (h ! a)\<lparr>n_varname := Some vn\<rparr>];
            x = h1 ! a
        in case is_nonterminal (n_root x) of
             Inl e \<Rightarrow> Some (h1, Inl e)
           | Inr nt \<Rightarrow>
              varTraverse_list fuel h1 (n_children x)
                (if nt then
                   (if length (n_children x) > 0 then
                      (if \<not> n_nonadjoining x then s\<lparr>interiorVars := interiorVars s @ [vn]\<rparr>
                       else s)
                    else
                      (if \<not> n_nonadjoining x
                       then s\<lparr>substitutionVars := substitutionVars s @ [vn]\<rparr>
                       else s))
                   \<lparr>var_i := var_i s + 1\<rparr>
                 else s))
     else None)"
| "varTraverse_list fuel h [] s = Some (h, Inr s)"
| "varTraverse_list fuel h (c # cs) s =
    (case varTraverse_h fuel h c s of
       None \<Rightarrow> None
     | Some (h1, Inl e) \<Rightarrow> Some (h1, Inl e)
     | Some (h1, Inr s1) \<Rightarrow> varTraverse_list fuel h1 cs s1)"

fun constructExpression_h :: "nat \<Rightarrow> heap \<Rightarrow> addr \<Rightarrow> (error + string) option"
  and constructExpression_list :: "nat \<Rightarrow> heap \<Rightarrow> addr list \<Rightarrow> (error + string list) option"
  where
  "constructExpression_h 0 h a = None"
| "constructExpression_h (Suc fuel) h a =
    (if a < length h then
       (let x = h ! a in
        case is_nonterminal (n_root x) of
          Inl e \<Rightarrow> Some (Inl e)
        | Inr nt \<Rightarrow>
           (if \<not> nt then Some (Inr (n_root x))
            else if n_footnode x then
              (if n_nonadjoining x then Some (Inr ''lvar'')
               else Some (Inr (fmt (n_varname x) @ '' lvar'')))
            else
              (case constructExpression_list fuel h (n_children x) of
                 None \<Rightarrow> None
               | Some (Inl e) \<Rightarrow> Some (Inl e)
               | Some (Inr childExpressions) \<Rightarrow>
                  (if n_nonadjoining x then
                     Some (Inr (''('' @ n_root x @ ''_'' @ str_nat (length childExpressions)
                                @ '' '' @ join '' '' childExpressions @ '')''))
                   else
                     Some (Inr (fmt (n_varname x) @ '' ('' @ n_root x @ ''_''
                                @ str_nat (length childExpressions) @ '' ''
                                @ join '' '' childExpressions @ '')''))))))
     else None)"
| "constructExpression_list fuel h [] = Some (Inr [])"
| "constructExpression_list fuel h (c # cs) =
    (case constructExpression_h fuel h c of
       None \<Rightarrow> None
     | Some (Inl e) \<Rightarrow> Some (Inl e)
     | Some (Inr x) \<Rightarrow>
        (case constructExpression_list fuel h cs of
           None \<Rightarrow> None
         | Some (Inl e) \<Rightarrow> Some (Inl e)
         | Some (Inr xs) \<Rightarrow> Some (Inr ((''('' @ x @ '')'') # xs))))"

text \<open>
  \<open>lambdaRealizationOfTree\<close> on the store: the parameter \<open>tree\<close> is rebound to the copy, and
  both traversals run on the copy. The result is the store after the call together with the
  returned text or the exception.
\<close>

definition lambdaRealizationOfTree_h ::
    "nat \<Rightarrow> heap \<Rightarrow> addr \<Rightarrow> bool \<Rightarrow> (heap \<times> (error + string)) option" where
  "lambdaRealizationOfTree_h fuel h tree initial =
    (case deepcopy fuel h tree of
       None \<Rightarrow> None
     | Some (tree', h1) \<Rightarrow>
        (case varTraverse_h fuel h1 tree' \<lparr>var_i = 0, interiorVars = [], substitutionVars = []\<rparr> of
           None \<Rightarrow> None
         | Some (h2, Inl e) \<Rightarrow> Some (h2, Inl e)
         | Some (h2, Inr s) \<Rightarrow>
            (let footnodeVars = (if initial = False then [''lvar''] else []);
                 allVars = interiorVars s @ substitutionVars s @ footnodeVars;
                 lambdaVars = ''lambda '' @ join '' '' allVars @ ''.''
             in case constructExpression_h fuel h2 tree' of
                  None \<Rightarrow> None
                | Some (Inl e) \<Rightarrow> Some (h2, Inl e)
                | Some (Inr expr) \<Rightarrow> Some (h2, Inr (lambdaVars @ '' '' @ expr)))))"

text \<open>The store holds the tree \<open>t\<close> at address \<open>a\<close>, every field included.\<close>

fun repr :: "heap \<Rightarrow> addr \<Rightarrow> Tree \<Rightarrow> bool"
  and repr_list :: "heap \<Rightarrow> addr list \<Rightarrow> Tree list \<Rightarrow> bool" where
  "repr h a (Tree i v cs na fn r) =
    (a < length h \<and> n_identifier (h ! a) = i \<and> n_varname (h ! a) = v
     \<and> n_nonadjoining (h ! a) = na \<and> n_footnode (h ! a) = fn \<and> n_root (h ! a) = r
     \<and> repr_list h (n_children (h ! a)) cs)"
| "repr_list h [] [] = True"
| "repr_list h (a # as) (t # ts) = (repr h a t \<and> repr_list h as ts)"
| "repr_list h [] (t # ts) = False"
| "repr_list h (a # as) [] = False"

text \<open>The number of levels of a tree: the fuel a traversal of it needs.\<close>

fun depth :: "Tree \<Rightarrow> nat" where
  "depth (Tree i v cs na fn r) = Suc (foldr max (map depth cs) 0)"

text \<open>The store holding the auxiliary tree \<open>VP (ADV) (VP*)\<close> at address 0.\<close>

definition adv_heap :: heap where
  "adv_heap =
    [\<lparr>n_identifier = None, n_varname = None, n_children = [1, 2], n_nonadjoining = False,
      n_footnode = False, n_root = ''VP''\<rparr>,
     \<lparr>n_identifier = None, n_varname = None, n_children = [], n_nonadjoining = False,
      n_footnode = False, n_root = ''ADV''\<rparr>,
     \<lparr>n_identifier = None, n_varname = None, n_children = [], n_nonadjoining = False,
      n_footnode = True, n_root = ''VP''\<rparr>]"

text \<open>
  The store holds the tree \<open>t\<close> in the block of addresses that starts at \<open>a\<close>, node after node
  in depth-first pre-order: the arrangement in which \<open>deepcopy\<close> creates the objects.
\<close>

fun count :: "Tree \<Rightarrow> nat" where
  "count (Tree i v cs na fn r) = Suc (sum_list (map count cs))"

fun layout :: "heap \<Rightarrow> addr \<Rightarrow> Tree \<Rightarrow> bool"
  and layout_list :: "heap \<Rightarrow> addr \<Rightarrow> addr list \<Rightarrow> Tree list \<Rightarrow> bool" where
  "layout h a (Tree i v cs na fn r) =
    (a < length h \<and> n_identifier (h ! a) = i \<and> n_varname (h ! a) = v
     \<and> n_nonadjoining (h ! a) = na \<and> n_footnode (h ! a) = fn \<and> n_root (h ! a) = r
     \<and> layout_list h (Suc a) (n_children (h ! a)) cs)"
| "layout_list h p [] [] = True"
| "layout_list h p (c # as) (t # ts) =
    (c = p \<and> layout h c t \<and> layout_list h (p + count t) as ts)"
| "layout_list h p [] (t # ts) = False"
| "layout_list h p (c # as) [] = False"

text \<open>
  Two conditions on the trees of a grammar: no node has an empty symbol, and every node whose
  symbol is not uppercase-initial is a leaf.
\<close>

definition no_empty_symbol :: "TAG \<Rightarrow> bool" where
  "no_empty_symbol g = (\<forall>n \<in> set (all_nodes g). root n \<noteq> [])"

definition terminals_are_leaves :: "TAG \<Rightarrow> bool" where
  "terminals_are_leaves g = (\<forall>n \<in> set (all_nodes g). \<not> is_nt (root n) \<longrightarrow> children n = [])"

section \<open>Concrete scenario 1\<close>

lemma scenario_1_constants:
  "signature_constants ''Derivation_trees'' scenario_1 =
     Inr [(''C_TI0'', ''S_A -> VP_A -> NP_S -> S_S''), (''C_TI1'', ''NP_A -> NP_S''),
          (''I_S'', ''S_A''), (''I_NP'', ''NP_A''), (''I_VP'', ''VP_A'')]"
  by code_simp

text \<open>
  C1, as stated: in scenario 1 the constant \<open>C_TI1\<close> of the Derivation_trees signature has
  type \<open>NP_S\<close>. It does not: the root \<open>NP\<close> of the tree \<open>NP (john)\<close> has a child and is
  therefore an adjunction site, which contributes the argument \<open>NP_A\<close>.
\<close>

theorem C1_counterexample:
  "constant_type ''Derivation_trees'' scenario_1 ''C_TI1'' \<noteq> Inr (Some ''NP_S'')"
  by (simp add: constant_type_def scenario_1_constants)

text \<open>
  C1, amended: in scenario 1 the Derivation_trees signature contains the constants \<open>C_TI0\<close>
  and \<open>C_TI1\<close>; the type of \<open>C_TI0\<close> is \<open>S_A -> VP_A -> NP_S -> S_S\<close> and the type of
  \<open>C_TI1\<close> is \<open>NP_A -> NP_S\<close>.
\<close>

theorem C1_scenario_1_types:
  "constant_type ''Derivation_trees'' scenario_1 ''C_TI0''
     = Inr (Some ''S_A -> VP_A -> NP_S -> S_S'')
   \<and> constant_type ''Derivation_trees'' scenario_1 ''C_TI1'' = Inr (Some ''NP_A -> NP_S'')"
  by (simp add: constant_type_def scenario_1_constants)

section \<open>Tree numbering\<close>

lemma number_loop_length:
  "length (fst (number_loop pre ts n)) = length ts \<and> snd (number_loop pre ts n) = n + length ts"
  by (induction pre ts n rule: number_loop.induct) (auto split: prod.splits)

lemma number_loop_nth:
  "i < length ts \<Longrightarrow>
   fst (number_loop pre ts n) ! i = with_identifier (pre @ str_nat (n + i)) (ts ! i)"
proof (induction pre ts n arbitrary: i rule: number_loop.induct)
  case (1 pre count)
  then show ?case by simp
next
  case (2 pre i0 v cs na fn r ts count)
  show ?case
  proof (cases i)
    case 0
    then show ?thesis by (simp split: prod.splits)
  next
    case (Suc j)
    with 2 have "fst (number_loop pre ts (count + 1)) ! j
        = with_identifier (pre @ str_nat (count + 1 + j)) (ts ! j)"
      by simp
    with Suc show ?thesis by (auto split: prod.splits)
  qed
qed

text \<open>
  C7: with \<open>m\<close> initial and \<open>k\<close> auxiliary trees, numbering keeps both lists in grammar order,
  gives the \<open>i\<close>-th initial tree the identifier \<open>C_TI\<close>\<open>i\<close> for \<open>i = 0, ..., m - 1\<close> and the
  \<open>j\<close>-th auxiliary tree the identifier \<open>C_TA\<close>\<open>(m + j)\<close> for \<open>j = 0, ..., k - 1\<close>: one counter
  runs through the initial trees first and goes on through the auxiliary trees.
\<close>

theorem C7_numberTrees:
  "length (initials (numberTrees g)) = length (initials g)
   \<and> length (auxiliaries (numberTrees g)) = length (auxiliaries g)
   \<and> (\<forall>i < length (initials g).
        initials (numberTrees g) ! i = with_identifier (''C_TI'' @ str_nat i) (initials g ! i))
   \<and> (\<forall>j < length (auxiliaries g).
        auxiliaries (numberTrees g) ! j
          = with_identifier (''C_TA'' @ str_nat (length (initials g) + j)) (auxiliaries g ! j))"
proof -
  obtain is' c1 where a: "number_loop ''C_TI'' (initials g) 0 = (is', c1)"
    by (cases "number_loop ''C_TI'' (initials g) 0")
  obtain as' c2 where b: "number_loop ''C_TA'' (auxiliaries g) c1 = (as', c2)"
    by (cases "number_loop ''C_TA'' (auxiliaries g) c1")
  have c1: "c1 = length (initials g)" and li: "length is' = length (initials g)"
    using number_loop_length [of "''C_TI''" "initials g" 0] a by simp_all
  have la: "length as' = length (auxiliaries g)"
    using number_loop_length [of "''C_TA''" "auxiliaries g" c1] b by simp
  have ni: "\<forall>i < length (initials g). is' ! i = with_identifier (''C_TI'' @ str_nat i) (initials g ! i)"
    using number_loop_nth [of _ "initials g" "''C_TI''" 0] a by simp
  have na: "\<forall>j < length (auxiliaries g).
      as' ! j = with_identifier (''C_TA'' @ str_nat (length (initials g) + j)) (auxiliaries g ! j)"
    using number_loop_nth [of _ "auxiliaries g" "''C_TA''" c1] b c1 by simp
  have "numberTrees g = g\<lparr>initials := is', auxiliaries := as'\<rparr>"
    by (simp add: numberTrees_def a b)
  with li la ni na show ?thesis by simp
qed

text \<open>Witness of C7 on a grammar with two initial and two auxiliary trees.\<close>

lemma str_nat_small:
  "str_nat 0 = ''0''" "str_nat 1 = ''1''" "str_nat 2 = ''2''" "str_nat 3 = ''3''"
  by code_simp+

theorem C7_numberTrees_witness:
  "initials (numberTrees example_tag) ! 1 = with_identifier ''C_TI1'' john_tree
   \<and> auxiliaries (numberTrees example_tag) ! 0 = with_identifier ''C_TA2'' adv_tree
   \<and> auxiliaries (numberTrees example_tag) ! 1 = with_identifier ''C_TA3'' deep_foot_tree"
proof -
  have a: "\<forall>i < length (initials example_tag).
      initials (numberTrees example_tag) ! i
        = with_identifier (''C_TI'' @ str_nat i) (initials example_tag ! i)"
    and b: "\<forall>j < length (auxiliaries example_tag).
      auxiliaries (numberTrees example_tag) ! j
        = with_identifier (''C_TA'' @ str_nat (length (initials example_tag) + j))
            (auxiliaries example_tag ! j)"
    using C7_numberTrees [of example_tag] by blast+
  have "(1::nat) < length (initials example_tag)" "(0::nat) < length (auxiliaries example_tag)"
    "(1::nat) < length (auxiliaries example_tag)"
    by (simp_all add: example_tag_def)
  with a b show ?thesis
    using str_nat_small by (auto simp add: example_tag_def numeral_2_eq_2 numeral_3_eq_3)
qed

section \<open>Type inference\<close>

lemma is_nonterminal_eq:
  "is_nonterminal r = (if r = [] then Inl IndexError else Inr (is_nt r))"
  by (cases r) (simp_all add: is_nonterminal_def is_nt_def)

lemma filter_concat_map: "filter P (concat (map f xs)) = concat (map (\<lambda>x. filter P (f x)) xs)"
  by (induction xs) simp_all

lemma adjunction_sites_Tree:
  "adjunction_sites (Tree i v cs na fn r) =
    (if is_nt r \<and> \<not> fn \<and> \<not> na \<and> cs \<noteq> [] then [Tree i v cs na fn r] else [])
    @ concat (map adjunction_sites cs)"
  by (simp add: adjunction_sites_def filter_concat_map cong: map_cong)

lemma substitution_sites_Tree:
  "substitution_sites (Tree i v cs na fn r) =
    (if is_nt r \<and> \<not> fn \<and> \<not> na \<and> cs = [] then [Tree i v cs na fn r] else [])
    @ concat (map substitution_sites cs)"
  by (simp add: substitution_sites_def filter_concat_map cong: map_cong)

lemma has_nonadjoining_footnode_Tree:
  "has_nonadjoining_footnode (Tree i v cs na fn r) =
    ((fn \<and> na) \<or> (\<exists>c \<in> set cs. has_nonadjoining_footnode c))"
  by (auto simp add: has_nonadjoining_footnode_def)

lemma symbols_nonempty_Tree:
  "symbols_nonempty (Tree i v cs na fn r) = (r \<noteq> [] \<and> (\<forall>c \<in> set cs. symbols_nonempty c))"
  by (auto simp add: symbols_nonempty_def)

lemma traverse_ok:
  "symbols_nonempty t \<Longrightarrow> traverse t s = Inr (absorb_sites s [t])"
  "(\<forall>c \<in> set cs. symbols_nonempty c) \<Longrightarrow> traverse_children cs s = Inr (absorb_sites s cs)"
proof (induction t s and cs s rule: traverse_traverse_children.induct)
  case (1 i v cs na fn r s)
  then show ?case
    by (auto simp add: is_nonterminal_eq symbols_nonempty_Tree absorb_sites_def
        adjunction_sites_Tree substitution_sites_Tree has_nonadjoining_footnode_Tree)
next
  case (2 s)
  then show ?case by (simp add: absorb_sites_def)
next
  case (3 c cs s)
  then show ?case by (auto simp add: absorb_sites_def)
qed

lemma traverse_fail:
  "\<not> symbols_nonempty t \<Longrightarrow> traverse t s = Inl IndexError"
  "\<not> (\<forall>c \<in> set cs. symbols_nonempty c) \<Longrightarrow> traverse_children cs s = Inl IndexError"
proof (induction t s and cs s rule: traverse_traverse_children.induct)
  case (1 i v cs na fn r s)
  show ?case
  proof (cases "r = []")
    case True
    then show ?thesis by (simp add: is_nonterminal_eq)
  next
    case False
    with "1.prems" have bad: "\<not> (\<forall>c \<in> set cs. symbols_nonempty c)"
      by (simp add: symbols_nonempty_Tree)
    have "\<And>x. traverse_children cs x = Inl IndexError \<or> True" by simp
    from False bad "1.IH" show ?thesis
      by (simp add: is_nonterminal_eq)
  qed
next
  case (2 s)
  then show ?case by simp
next
  case (3 c cs s)
  then show ?case 
    by (cases "symbols_nonempty c") (auto simp add: traverse_ok)
qed


lemma typeNodes_eq:
  "typeNodes t initial =
    (if symbols_nonempty t then
       Inr (map (\<lambda>n. root n @ ''_A'') (adjunction_sites t)
            @ map (\<lambda>n. root n @ ''_S'') (substitution_sites t)
            @ (if initial then [root t @ ''_S'']
               else if has_nonadjoining_footnode t then [root t @ ''_A'']
               else [root t @ ''_A -> '' @ root t @ ''_A'']))
     else Inl IndexError)"
  by (simp add: typeNodes_def traverse_ok traverse_fail absorb_sites_def)

text \<open>
  C4: type inference on an auxiliary tree raises only if some node has an empty symbol;
  otherwise the list of types it joins ends in the result type, which is \<open>root_A\<close> if some
  node of the tree, at any depth, is a footnode marked nonadjoining, and
  \<open>root_A -> root_A\<close> if there is none.
\<close>

theorem C4_auxiliary_result_type:
  "typeNodes t False =
    (if symbols_nonempty t then
       Inr (map (\<lambda>n. root n @ ''_A'') (adjunction_sites t)
            @ map (\<lambda>n. root n @ ''_S'') (substitution_sites t)
            @ [if (\<exists>n \<in> set (nodes t). footnode n \<and> nonadjoining n) then root t @ ''_A''
               else root t @ ''_A -> '' @ root t @ ''_A''])
     else Inl IndexError)
   \<and> typeForTree t False =
    (case typeNodes t False of Inl e \<Rightarrow> Inl e | Inr ns \<Rightarrow> Inr (join '' -> '' ns))"
  by (auto simp add: typeNodes_eq typeForTree_def has_nonadjoining_footnode_def)

lemmas example_tree_defs =
  john_tree_def sleeps_tree_def adv_tree_def deep_foot_tree_def

lemmas site_defs =
  symbols_nonempty_def adjunction_sites_def substitution_sites_def is_nt_def isupper_def

theorem C4_auxiliary_result_type_witness:
  "typeForTree deep_foot_tree False = Inr ''VP_A -> V_A -> VP_A''
   \<and> typeForTree adv_tree False = Inr ''VP_A -> ADV_S -> VP_A -> VP_A''"
  using C4_auxiliary_result_type [of deep_foot_tree] C4_auxiliary_result_type [of adv_tree]
  by (simp add: example_tree_defs site_defs)

text \<open>
  C5: type inference on an initial tree raises only if some node has an empty symbol;
  otherwise the list of types it joins is the types \<open>root_A\<close> of the adjunction sites in
  depth-first pre-order, then the types \<open>root_S\<close> of the substitution sites in depth-first
  pre-order, then the one result type \<open>root_S\<close> of the tree: \<open>a + s\<close> arguments and a result.
\<close>

theorem C5_initial_type:
  "typeNodes t True =
    (if symbols_nonempty t then
       Inr (map (\<lambda>n. root n @ ''_A'') (adjunction_sites t)
            @ map (\<lambda>n. root n @ ''_S'') (substitution_sites t)
            @ [root t @ ''_S''])
     else Inl IndexError)
   \<and> typeForTree t True =
    (case typeNodes t True of Inl e \<Rightarrow> Inl e | Inr ns \<Rightarrow> Inr (join '' -> '' ns))
   \<and> (\<forall>ns. typeNodes t True = Inr ns \<longrightarrow>
        length ns = length (adjunction_sites t) + length (substitution_sites t) + 1)"
  by (simp add: typeNodes_eq typeForTree_def)

theorem C5_initial_type_witness:
  "typeNodes sleeps_tree True = Inr [''S_A'', ''VP_A'', ''NP_S'', ''S_S'']
   \<and> typeForTree sleeps_tree True = Inr ''S_A -> VP_A -> NP_S -> S_S''
   \<and> length (adjunction_sites sleeps_tree) + length (substitution_sites sleeps_tree) + 1 = 4"
  using C5_initial_type [of sleeps_tree]
  by (simp add: example_tree_defs site_defs)

section \<open>Term realization: the bound variables\<close>

lemma bound_sites_Tree:
  "bound_sites (Tree i v cs na fn r) =
    (if is_nt r \<and> \<not> na then [Tree i v cs na fn r] else []) @ concat (map bound_sites cs)"
  by (simp add: bound_sites_def filter_concat_map cong: map_cong)

lemma varTraverse_ok:
  "symbols_nonempty t \<Longrightarrow>
    \<exists>t' s'. varTraverse t s = Inr (t', s') \<and> symbols_nonempty t'
      \<and> length (interiorVars s') + length (substitutionVars s')
        = length (interiorVars s) + length (substitutionVars s) + length (bound_sites t)"
  "(\<forall>c \<in> set cs. symbols_nonempty c) \<Longrightarrow>
    \<exists>cs' s'. varTraverse_children cs s = Inr (cs', s') \<and> (\<forall>c \<in> set cs'. symbols_nonempty c)
      \<and> length (interiorVars s') + length (substitutionVars s')
        = length (interiorVars s) + length (substitutionVars s)
          + length (concat (map bound_sites cs))"
proof (induction t s and cs s rule: varTraverse_varTraverse_children.induct)
  case (1 i v cs na fn r s)
  define vn where "vn = ''lvar'' @ str_nat (var_i s)"
  define s1 where "s1 =
    (if is_nt r then
       (if 0 < length cs then (if \<not> na then s\<lparr>interiorVars := interiorVars s @ [vn]\<rparr> else s)
        else (if \<not> na then s\<lparr>substitutionVars := substitutionVars s @ [vn]\<rparr> else s))
       \<lparr>var_i := var_i s + 1\<rparr>
     else s)"
  from "1.prems" have r: "r \<noteq> []" and cs: "\<forall>c \<in> set cs. symbols_nonempty c"
    by (simp_all add: symbols_nonempty_Tree)
  have nt: "is_nonterminal r = Inr (is_nt r)"
    using r by (simp add: is_nonterminal_eq)
  from "1.IH" [OF vn_def nt s1_def cs]
  obtain cs' s2 where run: "varTraverse_children cs s1 = Inr (cs', s2)"
    and ne: "\<forall>c \<in> set cs'. symbols_nonempty c"
    and len: "length (interiorVars s2) + length (substitutionVars s2)
        = length (interiorVars s1) + length (substitutionVars s1)
          + length (concat (map bound_sites cs))"
    by blast
  have s1_len: "length (interiorVars s1) + length (substitutionVars s1)
      = length (interiorVars s) + length (substitutionVars s)
        + (if is_nt r \<and> \<not> na then 1 else 0)"
    by (simp add: s1_def)
  have "varTraverse (Tree i v cs na fn r) s =
      (case varTraverse_children cs s1 of
         Inl e \<Rightarrow> Inl e
       | Inr (cs', s2) \<Rightarrow> Inr (Tree i (Some vn) cs' na fn r, s2))"
    unfolding vn_def s1_def by (simp only: varTraverse.simps nt Let_def sum.case)
  with run have "varTraverse (Tree i v cs na fn r) s = Inr (Tree i (Some vn) cs' na fn r, s2)"
    by simp
  moreover have "symbols_nonempty (Tree i (Some vn) cs' na fn r)"
    using r ne by (simp add: symbols_nonempty_Tree)
  ultimately show ?case
    using len s1_len by (simp add: bound_sites_Tree)
next
  case (2 s)
  then show ?case by simp
next
  case (3 c cs s)
  from 3 obtain c' s1 where a: "varTraverse c s = Inr (c', s1)" "symbols_nonempty c'"
    "length (interiorVars s1) + length (substitutionVars s1)
        = length (interiorVars s) + length (substitutionVars s) + length (bound_sites c)"
    by auto
  from "3.IH"(2) [OF a(1) refl] "3.prems"
  obtain cs' s2 where b: "varTraverse_children cs s1 = Inr (cs', s2)"
    "\<forall>c \<in> set cs'. symbols_nonempty c"
    "length (interiorVars s2) + length (substitutionVars s2)
        = length (interiorVars s1) + length (substitutionVars s1)
          + length (concat (map bound_sites cs))"
    by auto
  from a b show ?case by simp
qed

lemma constructExpression_ok:
  "symbols_nonempty t \<Longrightarrow> \<exists>e. constructExpression t = Inr e"
  "(\<forall>c \<in> set cs. symbols_nonempty c) \<Longrightarrow> \<exists>es. constructExpressions cs = Inr es"
proof (induction t and cs rule: constructExpression_constructExpressions.induct)
  case (1 i v cs na fn r)
  from "1.prems" have r: "r \<noteq> []" and cs: "\<forall>c \<in> set cs. symbols_nonempty c"
    by (simp_all add: symbols_nonempty_Tree)
  have nt: "is_nonterminal r = Inr (is_nt r)"
    using r by (simp add: is_nonterminal_eq)
  show ?case
  proof (cases "is_nt r \<and> \<not> fn")
    case True
    with "1.IH" [OF nt] cs obtain es where "constructExpressions cs = Inr es"
      by auto
    with True nt show ?thesis by simp
  next
    case False
    with nt show ?thesis by auto
  qed
next
  case 2
  then show ?case by simp
next
  case (3 c cs)
  then show ?case by auto
qed

text \<open>
  C2, amended: on a tree without empty symbols term realization returns a term
  \<open>lambda v1 ... vk. body\<close> whose number \<open>k\<close> of bound variables is the number of nonterminal
  nodes not marked nonadjoining, footnodes included, plus one (the reserved \<open>lvar\<close>) if and
  only if the tree is auxiliary.
\<close>

theorem C2_bound_variables:
  assumes "symbols_nonempty t"
  shows "\<exists>vs body. allVars t initial = Inr vs
    \<and> lambdaRealizationOfTree t initial = Inr (''lambda '' @ join '' '' vs @ ''. '' @ body)
    \<and> length vs = length (filter (\<lambda>n. is_nt (root n) \<and> \<not> nonadjoining n) (nodes t))
                   + (if initial then 0 else 1)"
proof -
  let ?s0 = "\<lparr>var_i = 0, interiorVars = [], substitutionVars = []\<rparr>"
  from varTraverse_ok(1) [OF assms, of ?s0]
  obtain t' s' where run: "varTraverse t ?s0 = Inr (t', s')" and ne: "symbols_nonempty t'"
    and len: "length (interiorVars s') + length (substitutionVars s') = length (bound_sites t)"
    by auto
  from constructExpression_ok(1) [OF ne] obtain e where e: "constructExpression t' = Inr e"
    by blast
  show ?thesis
    using run e len by (cases initial) (simp_all add: allVars_def lambdaRealizationOfTree_def bound_sites_def)
qed

text \<open>
  C2, as stated, leaves footnodes out of the count. The auxiliary tree \<open>VP (ADV) (VP*)\<close> has
  two nonterminal nodes that are neither footnodes nor nonadjoining, so the stated count is
  three; its realization binds four variables, one of them for the footnode \<open>VP*\<close>.
\<close>

theorem C2_counterexample:
  "binder_count adv_tree False = Inr 4 \<and> claimed_binder_count adv_tree False = 3"
  by code_simp

theorem C2_bound_variables_witness:
  "symbols_nonempty adv_tree \<and> binder_count adv_tree False = Inr 4 \<and> length (bound_sites adv_tree) = 3"
  using C2_bound_variables [of adv_tree False]
  by (auto simp add: adv_tree_def site_defs binder_count_def bound_sites_def)

section \<open>Branching analysis\<close>

lemma dict_get_notin:
  assumes "k \<notin> fst ` set b"
  shows "dict_get b k = Inl KeyError"
proof -
  from assms have "map_of b k = None" by (simp add: map_of_eq_None_iff)
  then show ?thesis by (simp add: dict_get_def)
qed

lemma dict_get_Inr_in:
  "dict_get b k = Inr m \<Longrightarrow> (k, m) \<in> set b"
  by (auto simp add: dict_get_def split: option.splits dest: map_of_SomeD)

lemma dict_get_cases:
  "dict_get b k = (if k \<in> fst ` set b then Inr (the (map_of b k)) else Inl KeyError)"
proof (cases "map_of b k")
  case None
  then have "k \<notin> fst ` set b" by (simp add: map_of_eq_None_iff)
  with None show ?thesis by (simp add: dict_get_def)
next
  case (Some m)
  then have "(k, m) \<in> set b" by (rule map_of_SomeD)
  then have "k \<in> fst ` set b" by force
  with Some show ?thesis by (simp add: dict_get_def)
qed

lemma bump_eq:
  fixes b :: "nat dict"
  assumes "distinct (map fst b)" "dict_get b k = Inr m"
  shows "(if m < n then dict_set b k n else b)
          = map (\<lambda>(k', m'). (k', if k' = k then max m' n else m')) b"
proof -
  have km: "(k, m) \<in> set b" using assms(2) by (rule dict_get_Inr_in)
  have uniq: "\<And>m'. (k, m') \<in> set b \<Longrightarrow> m' = m"
    using assms(1) km by (meson eq_key_imp_eq_value)
  have kin: "k \<in> set (map fst b)" using km by force
  show ?thesis
  proof (cases "m < n")
    case True
    have "map (\<lambda>(k', v'). if k' = k then (k', n) else (k', v')) b
        = map (\<lambda>(k', m'). (k', if k' = k then max m' n else m')) b"
      using uniq True by (intro map_cong) (auto simp add: max_def)
    with True kin show ?thesis by (simp add: dict_set_def)
  next
    case False
    have "map (\<lambda>(k', m'). (k', if k' = k then max m' n else m')) b = map (\<lambda>x. x) b"
      using uniq False by (intro map_cong) (auto simp add: max_def)
    with False show ?thesis by simp
  qed
qed

lemma max_children_Nil: "max_children k [] = 0"
  by (simp add: max_children_def)

lemma max_children_Cons:
  "max_children k (n # ns) =
    (if root n = k then max (length (children n)) (max_children k ns) else max_children k ns)"
  by (simp add: max_children_def)

lemma max_children_append:
  "max_children k (xs @ ys) = max (max_children k xs) (max_children k ys)"
  by (induction xs) (simp_all add: max_children_Nil max_children_Cons max.assoc)

lemma absorb_Nil: "absorb_branching b [] = b"
  by (simp add: absorb_branching_def max_children_Nil case_prod_beta)

lemma absorb_append:
  "absorb_branching (absorb_branching b xs) ys = absorb_branching b (xs @ ys)"
  by (simp add: absorb_branching_def max_children_append case_prod_beta max.assoc)

lemma absorb_keys: "map fst (absorb_branching b ns) = map fst b"
  by (simp add: absorb_branching_def case_prod_beta)

lemma absorb_bump:
  "root n = k \<Longrightarrow>
   absorb_branching (map (\<lambda>(k', m'). (k', if k' = k then max m' (length (children n)) else m')) b) ns
     = absorb_branching b (n # ns)"
  by (auto simp add: absorb_branching_def max_children_Cons case_prod_beta max.assoc)

lemma counted_Tree:
  "counted (Tree i v cs na fn r) =
    (if is_nt r then Tree i v cs na fn r # concat (map counted cs) else [])"
  by (simp add: counted_def filter_concat_map cong: map_cong)

lemma reached_nonempty_Tree:
  "(\<forall>n \<in> set (reached (Tree i v cs na fn r)). root n \<noteq> []) =
     (r \<noteq> [] \<and> (is_nt r \<longrightarrow> (\<forall>c \<in> set cs. \<forall>n \<in> set (reached c). root n \<noteq> [])))"
  by auto

lemma traverse_branching_spec:
  "distinct (map fst b) \<Longrightarrow> \<forall>n \<in> set (reached t). root n \<noteq> [] \<Longrightarrow>
    traverse_branching t b =
      (if \<forall>n \<in> set (counted t). root n \<in> fst ` set b then Inr (absorb_branching b (counted t))
       else Inl KeyError)"
  "distinct (map fst b) \<Longrightarrow> \<forall>c \<in> set cs. \<forall>n \<in> set (reached c). root n \<noteq> [] \<Longrightarrow>
    traverse_branching_children cs b =
      (if \<forall>n \<in> set (concat (map counted cs)). root n \<in> fst ` set b
       then Inr (absorb_branching b (concat (map counted cs)))
       else Inl KeyError)"
proof (induction t b and cs b rule: traverse_branching_traverse_branching_children.induct)
  case (1 i v cs na fn r b)
  from "1.prems"(2) [unfolded reached_nonempty_Tree] have r: "r \<noteq> []"
    and cs: "is_nt r \<Longrightarrow> \<forall>c \<in> set cs. \<forall>n \<in> set (reached c). root n \<noteq> []"
    by blast+
  have nt: "is_nonterminal r = Inr (is_nt r)"
    using r by (simp add: is_nonterminal_eq)
  show ?case
  proof (cases "is_nt r")
    case False
    with nt show ?thesis by (simp add: counted_Tree absorb_Nil)
  next
    case True
    show ?thesis
    proof (cases "r \<in> fst ` set b")
      case False
      with True nt show ?thesis by (simp add: counted_Tree dict_get_notin)
    next
      case inb: True
      then obtain m where m: "dict_get b r = Inr m"
        by (auto simp add: dict_get_cases)
      let ?b1 = "if m < length cs then dict_set b r (length cs) else b"
      let ?n = "Tree i v cs na fn r"
      have b1: "?b1 = map (\<lambda>(k', m'). (k', if k' = r then max m' (length (children ?n)) else m')) b"
        using bump_eq [OF "1.prems"(1) m, of "length cs"] by auto
      have d1: "distinct (map fst ?b1)"
        using "1.prems"(1) by (simp only: b1) (simp add: case_prod_beta comp_def)
      have k1: "fst ` set ?b1 = fst ` set b"
        by (simp only: b1) (force simp add: case_prod_beta)
      have ab: "absorb_branching ?b1 (concat (map counted cs))
          = absorb_branching b (?n # concat (map counted cs))"
        by (simp only: b1) (rule absorb_bump, simp)
      from "1.IH" [OF nt True m d1 cs [OF True]]
      have "traverse_branching_children cs ?b1 =
        (if \<forall>n \<in> set (concat (map counted cs)). root n \<in> fst ` set b
         then Inr (absorb_branching b (?n # concat (map counted cs)))
         else Inl KeyError)"
        by (simp only: k1 ab)
      moreover have "traverse_branching ?n b = traverse_branching_children cs ?b1"
        using nt True m by simp
      ultimately show ?thesis
        using True inb by (simp add: counted_Tree)
    qed
  qed
next
  case (2 b)
  then show ?case by (simp add: absorb_Nil)
next
  case (3 c cs b)
  from "3.prems" have c: "\<forall>n \<in> set (reached c). root n \<noteq> []"
    and cs: "\<forall>c \<in> set cs. \<forall>n \<in> set (reached c). root n \<noteq> []"
    by simp_all
  note h = "3.IH"(1) [OF "3.prems"(1) c]
  show ?case
  proof (cases "\<forall>n \<in> set (counted c). root n \<in> fst ` set b")
    case False
    with h show ?thesis by auto
  next
    case True
    with h have run: "traverse_branching c b = Inr (absorb_branching b (counted c))"
      by simp
    have d: "distinct (map fst (absorb_branching b (counted c)))"
      using "3.prems"(1) by (simp add: absorb_keys)
    have k: "fst ` set (absorb_branching b (counted c)) = fst ` set b"
      using absorb_keys [of b "counted c"] by (metis list.set_map)
    from "3.IH"(2) [OF run d cs] run True show ?thesis
      by (auto simp add: k absorb_append)
  qed
qed

lemma traverse_branching_returns:
  "traverse_branching t b = Inr b' \<Longrightarrow> \<forall>n \<in> set (reached t). root n \<noteq> []"
  "traverse_branching_children cs b = Inr b' \<Longrightarrow>
     \<forall>c \<in> set cs. \<forall>n \<in> set (reached c). root n \<noteq> []"
proof (induction t b and cs b arbitrary: b' and b'
       rule: traverse_branching_traverse_branching_children.induct)
  case (1 i v cs na fn r b)
  from "1.prems" have r: "r \<noteq> []"
    by (auto simp add: is_nonterminal_eq split: if_splits)
  have nt: "is_nonterminal r = Inr (is_nt r)"
    using r by (simp add: is_nonterminal_eq)
  show ?case
  proof (cases "is_nt r")
    case False
    with r show ?thesis by simp
  next
    case True
    with "1.prems" nt obtain m where m: "dict_get b r = Inr m"
      and run: "traverse_branching_children cs
                 (if m < length cs then dict_set b r (length cs) else b) = Inr b'"
      by (auto split: sum.splits)
    from "1.IH" [OF nt True m run] r True show ?thesis
      by (simp only: reached_nonempty_Tree) simp
  qed
next
  case (2 b)
  then show ?case by simp
next
  case (3 c cs b)
  from "3.prems" obtain b1 where a: "traverse_branching c b = Inr b1"
    and b: "traverse_branching_children cs b1 = Inr b'"
    by (auto split: sum.splits)
  from "3.IH"(1) [OF a] "3.IH"(2) [OF a b] show ?case by simp
qed


lemma dict_set_zero:
  "dict_set (map (\<lambda>k. (k, 0::nat)) ks) n 0
    = map (\<lambda>k. (k, 0)) (if n \<in> set ks then ks else ks @ [n])"
  by (auto simp add: dict_set_def comp_def)

lemma init_branching_zero:
  "init_branching ns (map (\<lambda>k. (k, 0)) ks) = map (\<lambda>k. (k, 0)) (add_keys ks ns)"
proof (induction ns arbitrary: ks)
  case Nil
  then show ?case by simp
next
  case (Cons n ns)
  show ?case
    using Cons [of "if n \<in> set ks then ks else ks @ [n]"]
    by (simp only: init_branching.simps add_keys.simps dict_set_zero)
qed

lemma add_keys_distinct: "distinct ks \<Longrightarrow> distinct (add_keys ks ns)"
  by (induction ns arbitrary: ks) simp_all

lemma add_keys_set: "set (add_keys ks ns) = set ks \<union> set ns"
  by (induction ns arbitrary: ks) auto

lemma init_branching_eq:
  "init_branching ns [] = map (\<lambda>k. (k, 0)) (add_keys [] ns)"
  using init_branching_zero [of ns "[]"] by simp

lemma init_branching_keys:
  "distinct (map fst (init_branching ns []))" "fst ` set (init_branching ns []) = set ns"
  by (simp_all add: init_branching_eq comp_def add_keys_distinct add_keys_set image_image)

lemma absorb_zero:
  "absorb_branching (map (\<lambda>k. (k, 0)) ks) ns = map (\<lambda>k. (k, max_children k ns)) ks"
  by (simp add: absorb_branching_def comp_def)

lemma reached_nodes_nonempty:
  "(\<forall>n \<in> set (reached_nodes g). root n \<noteq> [])
    = (\<forall>c \<in> set (grammar_trees g). \<forall>n \<in> set (reached c). root n \<noteq> [])"
  by (auto simp add: reached_nodes_def)

lemma branching_analysis_spec:
  assumes "\<forall>n \<in> set (reached_nodes g). root n \<noteq> []"
  shows "branching_analysis g =
    (if \<forall>n \<in> set (analysed g). root n \<in> set (nonterminals g)
     then Inr (map (\<lambda>k. (k, reached_max_children g k)) (add_keys [] (nonterminals g)))
     else Inl KeyError)"
proof -
  have "branching_analysis g
      = traverse_branching_children (grammar_trees g) (init_branching (nonterminals g) [])"
    by (simp add: branching_analysis_def grammar_trees_def)
  also have "\<dots> =
    (if \<forall>n \<in> set (concat (map counted (grammar_trees g))).
          root n \<in> fst ` set (init_branching (nonterminals g) [])
     then Inr (absorb_branching (init_branching (nonterminals g) [])
                 (concat (map counted (grammar_trees g))))
     else Inl KeyError)"
    using assms
    by (intro traverse_branching_spec(2) init_branching_keys(1))
       (simp add: reached_nodes_nonempty)
  finally have run: "branching_analysis g =
    (if \<forall>n \<in> set (concat (map counted (grammar_trees g))).
          root n \<in> fst ` set (init_branching (nonterminals g) [])
     then Inr (absorb_branching (init_branching (nonterminals g) [])
                 (concat (map counted (grammar_trees g))))
     else Inl KeyError)" .
  have keys: "fst ` set (init_branching (nonterminals g) []) = set (nonterminals g)"
    by (rule init_branching_keys(2))
  have ab: "absorb_branching (init_branching (nonterminals g) [])
              (concat (map counted (grammar_trees g)))
            = map (\<lambda>k. (k, reached_max_children g k)) (add_keys [] (nonterminals g))"
    by (simp add: init_branching_eq absorb_zero reached_max_children_def analysed_def)
  show ?thesis
    unfolding run keys ab by (simp add: analysed_def)
qed

lemma branching_analysis_returns:
  "branching_analysis g = Inr b \<Longrightarrow> \<forall>n \<in> set (reached_nodes g). root n \<noteq> []"
  using traverse_branching_returns(2) [of "grammar_trees g" "init_branching (nonterminals g) []" b]
  by (simp add: branching_analysis_def grammar_trees_def reached_nodes_nonempty)

lemma branching_analysis_Inr:
  assumes "branching_analysis g = Inr b"
  shows "b = map (\<lambda>k. (k, reached_max_children g k)) (add_keys [] (nonterminals g))"
  using branching_analysis_spec [OF branching_analysis_returns [OF assms]] assms
  by (simp split: if_splits)

lemma reached_eq_nodes:
  "\<forall>n \<in> set (nodes t). \<not> is_nt (root n) \<longrightarrow> children n = [] \<Longrightarrow> reached t = nodes t"
proof (induction t)
  case (Tree i v cs na fn r)
  have "\<And>c. c \<in> set cs \<Longrightarrow> reached c = nodes c"
    using Tree by auto
  then have "concat (map reached cs) = concat (map nodes cs)"
    by (simp cong: map_cong)
  moreover have "\<not> is_nt r \<Longrightarrow> cs = []" using Tree.prems by simp
  ultimately show ?case by (cases "is_nt r") simp_all
qed

lemma sub_reached: "set (reached t) \<subseteq> set (nodes t)"
  by (induction t) auto


lemma add_terminal_constants_eq:
  "add_terminal_constants ts ty sg = sg\<lparr>sig_constants := sig_constants sg @ map (\<lambda>t. (t, ty)) ts\<rparr>"
  by (induction ts ty sg rule: add_terminal_constants.induct) (simp_all add: addConstant_def)

lemma add_derived_constants_eq:
  "add_derived_constants cs sg =
    sg\<lparr>sig_constants := sig_constants sg
         @ map (\<lambda>c. (const_symbol c, treeTypeOfLength (const_size c + 1))) cs\<rparr>"
  by (induction cs sg rule: add_derived_constants.induct) (simp_all add: addConstant_def)

lemma dict_get_set: "dict_get (dict_set d k v) k = Inr v"
proof (cases "k \<in> set (map fst d)")
  case True
  have "map_of (map (\<lambda>(k', v'). if k' = k then (k', v) else (k', v')) d) k = Some v"
    using True by (induction d) auto
  with True show ?thesis by (simp add: dict_get_def dict_set_def)
next
  case False
  then have "map_of d k = None" by (simp add: map_of_eq_None_iff)
  with False show ?thesis by (simp add: dict_get_def dict_set_def map_add_def)
qed

lemma branching_constants_map:
  "branching_constants (map (\<lambda>k. (k, M k)) ks) = concat (map (\<lambda>k. constants_for k (M k)) ks)"
  by (simp add: branching_constants_def comp_def)

lemma max_children_filter:
  "is_nt N \<Longrightarrow> max_children N (filter (\<lambda>n. is_nt (root n)) ns) = max_children N ns"
proof -
  assume "is_nt N"
  then have "filter (\<lambda>n. root n = N) (filter (\<lambda>n. is_nt (root n)) ns) = filter (\<lambda>n. root n = N) ns"
    by (auto intro: filter_cong)
  then show ?thesis by (simp only: max_children_def)
qed

lemma analysed_leaves:
  assumes "\<forall>n \<in> set (all_nodes g). \<not> is_nt (root n) \<longrightarrow> children n = []"
  shows "analysed g = filter (\<lambda>n. is_nt (root n)) (all_nodes g)"
proof -
  have "\<And>t. t \<in> set (grammar_trees g) \<Longrightarrow> reached t = nodes t"
    using assms by (intro reached_eq_nodes) (auto simp add: all_nodes_def)
  then have "concat (map counted (grammar_trees g))
      = concat (map (\<lambda>t. filter (\<lambda>n. is_nt (root n)) (nodes t)) (grammar_trees g))"
    by (simp add: counted_def cong: map_cong)
  then show ?thesis
    by (simp only: analysed_def all_nodes_def filter_concat_map)
qed

text \<open>The constants of the Derived_trees signature in terms of the nodes the analysis reaches.\<close>

lemma derived_trees_reached:
  assumes "generateDerivedTreeConstants self = Inr a1"
  shows "generateDerivedTrees a1 =
      Inr (a1\<lparr>signatures := signatures self @
        [\<lparr>sig_name = ''Derived_trees'', sig_types = [''tree''],
          sig_constants =
            map (\<lambda>t. (t, ''tree'')) (terminals (tag self))
            @ concat (map (\<lambda>N. map (\<lambda>k. (N @ ''_'' @ str_nat k,
                                           join '' -> '' (replicate (k + 1) ''tree'')))
                                  [1 ..< reached_max_children (tag self) N + 1])
                          (add_keys [] (nonterminals (tag self))))
            @ [(''Empty'', ''tree'')]\<rparr>]\<rparr>)"
proof -
  from assms obtain b where b: "branching_analysis (tag self) = Inr b"
    and a1: "a1 = self\<lparr>metadata := dict_set (metadata self) ''derivedTreeConstants''
                                       (branching_constants b)\<rparr>"
    by (auto simp add: generateDerivedTreeConstants_def split: sum.splits)
  have cs: "branching_constants b =
      concat (map (\<lambda>N. constants_for N (reached_max_children (tag self) N))
                  (add_keys [] (nonterminals (tag self))))"
    by (simp only: branching_analysis_Inr [OF b] branching_constants_map)
  have types: "map (\<lambda>c. (const_symbol c, treeTypeOfLength (const_size c + 1)))
                 (branching_constants b)
      = concat (map (\<lambda>N. map (\<lambda>k. (N @ ''_'' @ str_nat k,
                                     join '' -> '' (replicate (k + 1) ''tree'')))
                            [1 ..< reached_max_children (tag self) N + 1])
                    (add_keys [] (nonterminals (tag self))))"
    by (simp add: cs map_concat constants_for_def comp_def treeTypeOfLength_def)
  have one: "treeTypeOfLength (Suc 0) = ''tree''"
    by (simp add: treeTypeOfLength_def)
  have "generateDerivedTrees a1 = Inr (a1\<lparr>signatures := signatures self @
        [\<lparr>sig_name = ''Derived_trees'', sig_types = [''tree''],
          sig_constants =
            map (\<lambda>t. (t, ''tree'')) (terminals (tag self))
            @ map (\<lambda>c. (const_symbol c, treeTypeOfLength (const_size c + 1)))
                (branching_constants b)
            @ [(''Empty'', ''tree'')]\<rparr>]\<rparr>)"
    by (simp add: generateDerivedTrees_def a1 dict_get_set one add_terminal_constants_eq
        add_derived_constants_eq addConstant_def addType_def Signature_init_def Let_def)
  then show ?thesis
    by (simp only: types)
qed

lemma sub_analysed: "set (analysed g) \<subseteq> {n \<in> set (all_nodes g). is_nt (root n)}"
  using sub_reached by (auto simp add: analysed_def all_nodes_def counted_def)

lemma sub_reached_nodes: "set (reached_nodes g) \<subseteq> set (all_nodes g)"
  using sub_reached by (auto simp add: reached_nodes_def all_nodes_def)

lemma max_children_leaves:
  "\<forall>n \<in> set ns. root n = N \<longrightarrow> children n = [] \<Longrightarrow> max_children N ns = 0"
  by (induction ns) (simp_all add: max_children_Nil max_children_Cons)

lemma reached_max_eq_true:
  assumes "terminals_are_leaves g"
  shows "reached_max_children g N = true_max_children g N"
proof -
  from assms have lv: "\<forall>n \<in> set (all_nodes g). \<not> is_nt (root n) \<longrightarrow> children n = []"
    by (simp add: terminals_are_leaves_def)
  have an: "analysed g = filter (\<lambda>n. is_nt (root n)) (all_nodes g)"
    by (rule analysed_leaves [OF lv])
  show ?thesis
  proof (cases "is_nt N")
    case True
    then show ?thesis
      by (simp add: reached_max_children_def true_max_children_def an max_children_filter)
  next
    case False
    have "max_children N (filter (\<lambda>n. is_nt (root n)) (all_nodes g)) = 0"
      using False by (intro max_children_leaves) auto
    moreover have "max_children N (all_nodes g) = 0"
      using False lv by (intro max_children_leaves) auto
    ultimately show ?thesis
      by (simp add: reached_max_children_def true_max_children_def an)
  qed
qed

lemma reached_nodes_leaves:
  assumes "terminals_are_leaves g"
  shows "reached_nodes g = all_nodes g"
proof -
  have "\<And>t. t \<in> set (grammar_trees g) \<Longrightarrow> reached t = nodes t"
    using assms
    by (intro reached_eq_nodes) (auto simp add: all_nodes_def terminals_are_leaves_def)
  then have "concat (map reached (grammar_trees g)) = concat (map nodes (grammar_trees g))"
    by (simp cong: map_cong)
  then show ?thesis by (simp only: reached_nodes_def all_nodes_def)
qed

text \<open>
  C6, amended: for a grammar in which every node whose symbol is not uppercase-initial is a
  leaf, and on which the branching analysis returns, the Derived_trees signature holds, after
  the constants of the terminals and before \<open>Empty\<close>, for every declared nonterminal \<open>N\<close> (in
  order of first declaration) exactly the constants \<open>N_k\<close> for \<open>1 \<le> k \<le> maxChildren(N)\<close>,
  where \<open>maxChildren(N)\<close> is the largest number of children among all nodes labelled \<open>N\<close> in
  the initial and auxiliary trees, each of type \<open>tree -> ... -> tree\<close> with \<open>k + 1\<close>
  occurrences of \<open>tree\<close>.
\<close>

theorem C6_derived_tree_constants:
  assumes "generateDerivedTreeConstants self = Inr a1"
    and "terminals_are_leaves (tag self)"
  shows "generateDerivedTrees a1 =
      Inr (a1\<lparr>signatures := signatures self @
        [\<lparr>sig_name = ''Derived_trees'', sig_types = [''tree''],
          sig_constants =
            map (\<lambda>t. (t, ''tree'')) (terminals (tag self))
            @ concat (map (\<lambda>N. map (\<lambda>k. (N @ ''_'' @ str_nat k,
                                           join '' -> '' (replicate (k + 1) ''tree'')))
                                  [1 ..< true_max_children (tag self) N + 1])
                          (add_keys [] (nonterminals (tag self))))
            @ [(''Empty'', ''tree'')]\<rparr>]\<rparr>)"
  using derived_trees_reached [OF assms(1)]
  by (simp only: reached_max_eq_true [OF assms(2)])

text \<open>
  C10, amended: if every uppercase-initial symbol of every elementary tree is a declared
  nonterminal and no node has an empty symbol, the lookup never fails and the analysis
  returns. If some uppercase-initial symbol of a tree is not declared, no node has an empty
  symbol and every node whose symbol is not uppercase-initial is a leaf, the analysis aborts
  with \<open>KeyError\<close>.
\<close>

theorem C10_branching_lookup:
  "(uppercase_symbols_declared (tag self) \<and> no_empty_symbol (tag self)
      \<longrightarrow> (\<exists>a. generateDerivedTreeConstants self = Inr a))
   \<and> (\<not> uppercase_symbols_declared (tag self) \<and> no_empty_symbol (tag self)
        \<and> terminals_are_leaves (tag self)
      \<longrightarrow> generateDerivedTreeConstants self = Inl KeyError)"
proof (intro conjI impI)
  assume a: "uppercase_symbols_declared (tag self) \<and> no_empty_symbol (tag self)"
  then have "\<forall>n \<in> set (reached_nodes (tag self)). root n \<noteq> []"
    using sub_reached_nodes by (auto simp add: no_empty_symbol_def)
  moreover from a have "\<forall>n \<in> set (analysed (tag self)). root n \<in> set (nonterminals (tag self))"
    using sub_analysed [of "tag self"] by (auto simp add: uppercase_symbols_declared_def)
  ultimately show "\<exists>a. generateDerivedTreeConstants self = Inr a"
    by (simp add: generateDerivedTreeConstants_def branching_analysis_spec)
next
  assume b: "\<not> uppercase_symbols_declared (tag self) \<and> no_empty_symbol (tag self)
        \<and> terminals_are_leaves (tag self)"
  then have lv: "terminals_are_leaves (tag self)" by simp
  from b have "\<forall>n \<in> set (reached_nodes (tag self)). root n \<noteq> []"
    by (simp add: reached_nodes_leaves [OF lv] no_empty_symbol_def)
  moreover have "analysed (tag self) = filter (\<lambda>n. is_nt (root n)) (all_nodes (tag self))"
    using lv by (intro analysed_leaves) (simp add: terminals_are_leaves_def)
  with b have "\<exists>n \<in> set (analysed (tag self)). root n \<notin> set (nonterminals (tag self))"
    by (auto simp add: uppercase_symbols_declared_def)
  ultimately show "generateDerivedTreeConstants self = Inl KeyError"
    by (auto simp add: generateDerivedTreeConstants_def branching_analysis_spec)
qed

lemma example_constants:
  "generateDerivedTreeConstants example_acg = Inr example_acg_constants"
  by code_simp


text \<open>
  C6, as stated, takes the maximum over all nodes labelled \<open>N\<close>. In the grammar with the
  declared nonterminal \<open>np\<close> and the tree \<open>np (john)\<close> the node \<open>np\<close> has one child, yet no
  constant is emitted: a lowercase symbol is classified as a terminal. In the grammar with
  the tree \<open>x (NP a b)\<close> the node \<open>NP\<close> has two children, yet no constant is emitted: the
  traversal does not descend below the lowercase root.
\<close>

theorem C6_counterexample:
  "derived_tree_constants lower_tag = Inr [] \<and> true_max_children lower_tag ''np'' = 1
   \<and> derived_tree_constants pruned_tag = Inr [] \<and> true_max_children pruned_tag ''NP'' = 2"
  by code_simp

lemma example_leaves: "terminals_are_leaves (tag example_acg)"
  by code_simp

lemma example_true_constants:
  "concat (map (\<lambda>N. map (\<lambda>k. (N @ ''_'' @ str_nat k, join '' -> '' (replicate (k + 1) ''tree'')))
                        [1 ..< true_max_children (tag example_acg) N + 1])
               (add_keys [] (nonterminals (tag example_acg))))
   = [(''S_1'', ''tree -> tree''), (''S_2'', ''tree -> tree -> tree''),
      (''NP_1'', ''tree -> tree''), (''VP_1'', ''tree -> tree''),
      (''VP_2'', ''tree -> tree -> tree''), (''V_1'', ''tree -> tree'')]"
  by code_simp

theorem C6_derived_tree_constants_witness:
  "generateDerivedTreeConstants example_acg = Inr example_acg_constants
   \<and> terminals_are_leaves (tag example_acg)
   \<and> generateDerivedTrees example_acg_constants =
      Inr (example_acg_constants\<lparr>signatures :=
        [\<lparr>sig_name = ''Derived_trees'', sig_types = [''tree''],
          sig_constants =
            [(''john'', ''tree''), (''sleeps'', ''tree''),
             (''S_1'', ''tree -> tree''), (''S_2'', ''tree -> tree -> tree''),
             (''NP_1'', ''tree -> tree''), (''VP_1'', ''tree -> tree''),
             (''VP_2'', ''tree -> tree -> tree''), (''V_1'', ''tree -> tree''),
             (''Empty'', ''tree'')]\<rparr>]\<rparr>)"
proof -
  have tg: "tag example_acg = example_tag" "signatures example_acg = []"
    by (simp_all add: example_acg_def)
  have ts: "terminals example_tag = [''john'', ''sleeps'']"
    by (simp add: example_tag_def)
  have a: "generateDerivedTrees example_acg_constants =
      Inr (example_acg_constants\<lparr>signatures := signatures example_acg @
        [\<lparr>sig_name = ''Derived_trees'', sig_types = [''tree''],
          sig_constants =
            map (\<lambda>t. (t, ''tree'')) (terminals (tag example_acg))
            @ [(''S_1'', ''tree -> tree''), (''S_2'', ''tree -> tree -> tree''),
               (''NP_1'', ''tree -> tree''), (''VP_1'', ''tree -> tree''),
               (''VP_2'', ''tree -> tree -> tree''), (''V_1'', ''tree -> tree'')]
            @ [(''Empty'', ''tree'')]\<rparr>]\<rparr>)"
    using C6_derived_tree_constants [OF example_constants example_leaves]
    by (simp only: example_true_constants)
  from a have "generateDerivedTrees example_acg_constants =
      Inr (example_acg_constants\<lparr>signatures :=
        [\<lparr>sig_name = ''Derived_trees'', sig_types = [''tree''],
          sig_constants =
            [(''john'', ''tree''), (''sleeps'', ''tree''),
             (''S_1'', ''tree -> tree''), (''S_2'', ''tree -> tree -> tree''),
             (''NP_1'', ''tree -> tree''), (''VP_1'', ''tree -> tree''),
             (''VP_2'', ''tree -> tree -> tree''), (''V_1'', ''tree -> tree''),
             (''Empty'', ''tree'')]\<rparr>]\<rparr>)"
    by (simp add: tg ts)
  with example_constants example_leaves show ?thesis
    by (intro conjI)
qed

text \<open>
  C10, as stated, fails in both directions. The tree \<open>S (*)\<close> is read with an empty symbol
  for the child; every uppercase-initial symbol is declared, yet the analysis raises
  \<open>IndexError\<close> when it classifies the empty symbol. In the grammar with the tree
  \<open>x (NP a b)\<close> and no declared nonterminal the symbol \<open>NP\<close> is undeclared, yet the analysis
  returns, because it never reaches that node.
\<close>

theorem C10_counterexample:
  "parseTree (SList [Symbol ''S'', SList [Symbol ''*'']]) = Inr star_tree
   \<and> uppercase_symbols_declared star_tag \<and> branching_analysis star_tag = Inl IndexError
   \<and> \<not> uppercase_symbols_declared hidden_tag \<and> branching_analysis hidden_tag = Inr []"
  by code_simp

lemma C10_hypotheses:
  "uppercase_symbols_declared (tag example_acg) \<and> no_empty_symbol (tag example_acg)"
  "\<not> uppercase_symbols_declared (tag undeclared_acg) \<and> no_empty_symbol (tag undeclared_acg)
     \<and> terminals_are_leaves (tag undeclared_acg)"
  by code_simp+

theorem C10_branching_lookup_witness:
  "(\<exists>a. generateDerivedTreeConstants example_acg = Inr a)
   \<and> generateDerivedTreeConstants undeclared_acg = Inl KeyError"
  using C10_branching_lookup [of example_acg] C10_branching_lookup [of undeclared_acg]
    C10_hypotheses
  by blast

section \<open>Tree construction: the suffixes\<close>











section \<open>Term realization on the store\<close>

lemma repr_agree:
  "repr h a t \<Longrightarrow> length h \<le> length h' \<Longrightarrow> (\<forall>b < length h. h' ! b = h ! b) \<Longrightarrow> repr h' a t"
  "repr_list h as ts \<Longrightarrow> length h \<le> length h' \<Longrightarrow> (\<forall>b < length h. h' ! b = h ! b)
     \<Longrightarrow> repr_list h' as ts"
  by (induction h a t and h as ts rule: repr_repr_list.induct) auto

lemma depth_children:
  "depth (Tree i v cs na fn r) \<le> Suc fuel \<Longrightarrow> \<forall>c \<in> set cs. depth c \<le> fuel"
proof -
  have "\<And>m. foldr max (map depth cs) 0 \<le> m \<Longrightarrow> \<forall>c \<in> set cs. depth c \<le> m"
    by (induction cs) auto
  then show "depth (Tree i v cs na fn r) \<le> Suc fuel \<Longrightarrow> \<forall>c \<in> set cs. depth c \<le> fuel"
    by simp
qed

lemma depth_pos: "depth t \<le> 0 \<Longrightarrow> False"
  by (cases t) simp

lemma layout_agree:
  "layout h a t \<Longrightarrow> length h \<le> length h' \<Longrightarrow>
     (\<forall>b. a \<le> b \<and> b < a + count t \<and> b < length h \<longrightarrow> h' ! b = h ! b) \<Longrightarrow> layout h' a t"
  "layout_list h p as ts \<Longrightarrow> length h \<le> length h' \<Longrightarrow>
     (\<forall>b. p \<le> b \<and> b < p + sum_list (map count ts) \<and> b < length h \<longrightarrow> h' ! b = h ! b)
     \<Longrightarrow> layout_list h' p as ts"
proof (induction h a t and h p as ts rule: layout_layout_list.induct)
  case (1 h a i v cs na fn r)
  from "1.prems" have a: "a < length h" and eq: "h' ! a = h ! a"
    by simp_all
  have "layout_list h' (Suc a) (n_children (h ! a)) cs"
    using "1.prems" by (intro "1.IH") simp_all
  with "1.prems" a eq show ?case by simp
next
  case (3 h p c as t ts)
  from "3.prems"(1) have c: "c = p" and l1: "layout h c t"
    and l2: "layout_list h (p + count t) as ts"
    by auto
  have "layout h' c t"
    using l1 "3.prems"(2,3) c by (intro "3.IH"(1)) simp_all
  moreover have "layout_list h' (p + count t) as ts"
    using l2 "3.prems"(2,3) by (intro "3.IH"(2)) simp_all
  ultimately show ?case using c by simp
qed simp_all

lemma layout_repr:
  "layout h a t \<Longrightarrow> repr h a t"
  "layout_list h p as ts \<Longrightarrow> repr_list h as ts"
  by (induction h a t and h p as ts rule: layout_layout_list.induct) auto

lemma layout_list_length: "layout_list h p as ts \<Longrightarrow> length as = length ts"
proof (induction as arbitrary: p ts)
  case Nil
  then show ?case by (cases ts) simp_all
next
  case (Cons a as)
  then show ?case by (cases ts) auto
qed

lemma deepcopy_layout:
  "repr h a t \<Longrightarrow> depth t \<le> fuel \<Longrightarrow>
    \<exists>h1. deepcopy fuel h a = Some (length h, h1) \<and> length h1 = length h + count t
      \<and> (\<forall>b < length h. h1 ! b = h ! b) \<and> layout h1 (length h) t"
  "repr_list h as ts \<Longrightarrow> \<forall>t \<in> set ts. depth t \<le> fuel \<Longrightarrow>
    \<exists>as' h1. deepcopy_list fuel h as = Some (as', h1)
      \<and> length h1 = length h + sum_list (map count ts)
      \<and> (\<forall>b < length h. h1 ! b = h ! b) \<and> layout_list h1 (length h) as' ts"
proof (induction fuel h a and fuel h as arbitrary: t and ts
       rule: deepcopy_deepcopy_list.induct)
  case (1 h a)
  then show ?case using depth_pos by blast
next
  case (2 fuel h a)
  obtain i v cs na fn r where t: "t = Tree i v cs na fn r" by (cases t)
  let ?x = "h ! a"
  let ?h0 = "h @ [?x\<lparr>n_children := []\<rparr>]"
  from "2.prems"(1) t have a: "a < length h" and cs: "repr_list h (n_children ?x) cs"
    and fields: "n_identifier ?x = i" "n_varname ?x = v" "n_nonadjoining ?x = na"
      "n_footnode ?x = fn" "n_root ?x = r"
    by simp_all
  from "2.prems"(2) t have d: "\<forall>c \<in> set cs. depth c \<le> fuel"
    using depth_children by blast
  have cs0: "repr_list ?h0 (n_children ?x) cs"
    using cs by (rule repr_agree(2)) (simp_all add: nth_append)
  from "2.IH" [OF a refl refl cs0 d]
  obtain as' h1 where run: "deepcopy_list fuel ?h0 (n_children ?x) = Some (as', h1)"
    and len: "length h1 = length ?h0 + sum_list (map count cs)"
    and pre: "\<forall>b < length ?h0. h1 ! b = ?h0 ! b"
    and lay: "layout_list h1 (length ?h0) as' cs"
    by blast
  let ?y = "length h"
  let ?h' = "h1[?y := ?x\<lparr>n_children := as'\<rparr>]"
  have res: "deepcopy (Suc fuel) h a = Some (?y, ?h')"
    using a run by (simp add: Let_def)
  have l: "length ?h' = length h + count t" using len t by simp
  have p: "\<forall>b < length h. ?h' ! b = h ! b"
    using pre by (simp add: nth_append)
  have lay': "layout_list h1 (Suc ?y) as' cs"
    using lay by simp
  have "layout_list ?h' (Suc ?y) as' cs"
    by (rule layout_agree(2) [OF lay']) simp_all
  moreover have "?y < length ?h'" using len by simp
  moreover have "?h' ! ?y = ?x\<lparr>n_children := as'\<rparr>" using len by simp
  ultimately have s: "layout ?h' ?y t"
    using t fields by simp
  from res l p s show ?case by blast
next
  case (3 fuel h)
  then show ?case by (cases ts) simp_all
next
  case (4 fuel h c cs)
  from "4.prems"(1) obtain t1 ts1 where ts: "ts = t1 # ts1"
    and c: "repr h c t1" and cs: "repr_list h cs ts1"
    by (cases ts) simp_all
  from "4.prems"(2) ts have d1: "depth t1 \<le> fuel" and d: "\<forall>t \<in> set ts1. depth t \<le> fuel"
    by simp_all
  from "4.IH"(1) [OF c d1]
  obtain h1 where r1: "deepcopy fuel h c = Some (length h, h1)"
    and l1: "length h1 = length h + count t1"
    and p1: "\<forall>b < length h. h1 ! b = h ! b" and s1: "layout h1 (length h) t1"
    by blast
  have cs1: "repr_list h1 cs ts1"
    by (rule repr_agree(2) [OF cs]) (simp_all add: l1 p1)
  from "4.IH"(2) [OF r1 refl cs1 d]
  obtain cs' h2 where r2: "deepcopy_list fuel h1 cs = Some (cs', h2)"
    and l2: "length h2 = length h1 + sum_list (map count ts1)"
    and p2: "\<forall>b < length h1. h2 ! b = h1 ! b" and s2: "layout_list h2 (length h1) cs' ts1"
    by blast
  have "deepcopy_list fuel h (c # cs) = Some (length h # cs', h2)"
    using r1 r2 by simp
  moreover have "length h2 = length h + sum_list (map count ts)" using l1 l2 ts by simp
  moreover have "\<forall>b < length h. h2 ! b = h ! b" using l1 p1 p2 by simp
  moreover have "layout h2 (length h) t1"
    by (rule layout_agree(1) [OF s1]) (simp_all add: l2 p2)
  moreover have "layout_list h2 (length h + count t1) cs' ts1"
    using s2 l1 by simp
  ultimately show ?case using ts by auto
qed

lemma constructExpression_h_eq:
  "repr h a t \<Longrightarrow> depth t \<le> fuel \<Longrightarrow>
     constructExpression_h fuel h a = Some (constructExpression t)"
  "repr_list h as ts \<Longrightarrow> \<forall>t \<in> set ts. depth t \<le> fuel \<Longrightarrow>
     constructExpression_list fuel h as = Some (constructExpressions ts)"
proof (induction fuel h a and fuel h as arbitrary: t and ts
       rule: constructExpression_h_constructExpression_list.induct)
  case (1 h a)
  then show ?case using depth_pos by blast
next
  case (2 fuel h a)
  obtain i v cs na fn r where t: "t = Tree i v cs na fn r" by (cases t)
  from "2.prems"(1) t have a: "a < length h" and cs: "repr_list h (n_children (h ! a)) cs"
    and fields: "n_varname (h ! a) = v" "n_nonadjoining (h ! a) = na"
      "n_footnode (h ! a) = fn" "n_root (h ! a) = r"
    by simp_all
  from "2.prems"(2) t have d: "\<forall>c \<in> set cs. depth c \<le> fuel"
    using depth_children by blast
  show ?case
  proof (cases "is_nonterminal r")
    case (Inl e)
    with a fields t show ?thesis by (simp add: Let_def)
  next
    case (Inr nt)
    show ?thesis
    proof (cases "nt \<and> \<not> fn")
      case False
      with a Inr fields t show ?thesis by (auto simp add: Let_def)
    next
      case True
      then have nt: "\<not> \<not> nt" and fn: "\<not> n_footnode (h ! a)" using fields by simp_all
      have nt': "is_nonterminal (n_root (h ! a)) = Inr nt" using Inr fields by simp
      from "2.IH" [OF a refl nt' nt fn cs d]
      have "constructExpression_list fuel h (n_children (h ! a)) = Some (constructExpressions cs)" .
      with a Inr True fields t show ?thesis
        by (cases "constructExpressions cs") (simp_all add: Let_def)
    qed
  qed
next
  case (3 fuel h)
  then show ?case by (cases ts) simp_all
next
  case (4 fuel h c cs)
  from "4.prems"(1) obtain t1 ts1 where ts: "ts = t1 # ts1"
    and c: "repr h c t1" and cs: "repr_list h cs ts1"
    by (cases ts) simp_all
  from "4.prems"(2) ts have d1: "depth t1 \<le> fuel" and d: "\<forall>t \<in> set ts1. depth t \<le> fuel"
    by simp_all
  note r1 = "4.IH"(1) [OF c d1]
  show ?case
  proof (cases "constructExpression t1")
    case (Inl e)
    with r1 ts show ?thesis by simp
  next
    case (Inr x)
    from "4.IH"(2) [OF r1 [unfolded Inr] refl cs d]
    have "constructExpression_list fuel h cs = Some (constructExpressions ts1)" .
    with r1 Inr ts show ?thesis by (cases "constructExpressions ts1") simp_all
  qed
qed

lemma varTraverse_h_eq:
  "layout h a t \<Longrightarrow> depth t \<le> fuel \<Longrightarrow>
    \<exists>h'. length h' = length h \<and> (\<forall>b. b < a \<or> a + count t \<le> b \<longrightarrow> h' ! b = h ! b)
      \<and> (case varTraverse t s of
            Inl e \<Rightarrow> varTraverse_h fuel h a s = Some (h', Inl e)
          | Inr (t', s') \<Rightarrow>
              varTraverse_h fuel h a s = Some (h', Inr s') \<and> layout h' a t'
              \<and> count t' = count t \<and> depth t' = depth t)"
  "layout_list h p as ts \<Longrightarrow> \<forall>t \<in> set ts. depth t \<le> fuel \<Longrightarrow>
    \<exists>h'. length h' = length h
      \<and> (\<forall>b. b < p \<or> p + sum_list (map count ts) \<le> b \<longrightarrow> h' ! b = h ! b)
      \<and> (case varTraverse_children ts s of
            Inl e \<Rightarrow> varTraverse_list fuel h as s = Some (h', Inl e)
          | Inr (ts', s') \<Rightarrow>
              varTraverse_list fuel h as s = Some (h', Inr s') \<and> layout_list h' p as ts'
              \<and> map count ts' = map count ts \<and> map depth ts' = map depth ts)"
proof (induction fuel h a s and fuel h as s arbitrary: t and p ts
       rule: varTraverse_h_varTraverse_list.induct)
  case (1 h a s)
  then show ?case using depth_pos by blast
next
  case (2 fuel h a s)
  obtain i v cs na fn r where t: "t = Tree i v cs na fn r" by (cases t)
  define vn where "vn = ''lvar'' @ str_nat (var_i s)"
  define h1 where "h1 = h[a := (h ! a)\<lparr>n_varname := Some vn\<rparr>]"
  define x where "x = h1 ! a"
  from "2.prems"(1) t have a: "a < length h"
    and ll: "layout_list h (Suc a) (n_children (h ! a)) cs"
    and fields: "n_identifier (h ! a) = i" "n_nonadjoining (h ! a) = na"
      "n_footnode (h ! a) = fn" "n_root (h ! a) = r"
    by simp_all
  from "2.prems"(2) t have d: "\<forall>c \<in> set cs. depth c \<le> fuel"
    using depth_children by blast
  have l1: "length h1 = length h" by (simp add: h1_def)
  have f1: "\<forall>b. b \<noteq> a \<longrightarrow> h1 ! b = h ! b" by (simp add: h1_def)
  have frame1: "\<forall>b. b < a \<or> a + count t \<le> b \<longrightarrow> h1 ! b = h ! b"
    using f1 t by auto
  have xv: "x = (h ! a)\<lparr>n_varname := Some vn\<rparr>" using a by (simp add: x_def h1_def)
  have xf: "n_identifier x = i" "n_nonadjoining x = na" "n_footnode x = fn" "n_root x = r"
    "n_varname x = Some vn" "n_children x = n_children (h ! a)"
    using fields by (simp_all add: xv)
  have xl: "length (n_children x) = length cs"
    using layout_list_length [OF ll] xf by simp
  show ?case
  proof (cases "is_nonterminal r")
    case (Inl e)
    then have "varTraverse_h (Suc fuel) h a s = Some (h1, Inl e)"
      using a xf unfolding x_def h1_def vn_def by (simp add: Let_def)
    moreover have "varTraverse t s = Inl e"
      using Inl t by simp
    ultimately show ?thesis using l1 frame1 by (intro exI [of _ h1]) simp
  next
    case (Inr nt)
    define s1 where "s1 =
      (if nt then
         (if 0 < length (n_children x) then
            (if \<not> n_nonadjoining x then s\<lparr>interiorVars := interiorVars s @ [vn]\<rparr> else s)
          else
            (if \<not> n_nonadjoining x then s\<lparr>substitutionVars := substitutionVars s @ [vn]\<rparr>
             else s))
         \<lparr>var_i := var_i s + 1\<rparr>
       else s)"
    have s1': "s1 =
      (if nt then
         (if 0 < length cs then
            (if \<not> na then s\<lparr>interiorVars := interiorVars s @ [vn]\<rparr> else s)
          else
            (if \<not> na then s\<lparr>substitutionVars := substitutionVars s @ [vn]\<rparr> else s))
         \<lparr>var_i := var_i s + 1\<rparr>
       else s)"
      unfolding s1_def xl xf(2) ..
    have pure: "varTraverse t s =
      (case varTraverse_children cs s1 of
         Inl e \<Rightarrow> Inl e
       | Inr (cs', s2) \<Rightarrow> Inr (Tree i (Some vn) cs' na fn r, s2))"
      unfolding t s1' vn_def by (simp only: varTraverse.simps Inr Let_def sum.case)
    have Inr': "is_nonterminal (n_root x) = Inr nt" using Inr xf by simp
    have heap: "varTraverse_h (Suc fuel) h a s = varTraverse_list fuel h1 (n_children x) s1"
      using a Inr' unfolding s1_def x_def h1_def vn_def by (simp add: Let_def)
    have ll1: "layout_list h1 (Suc a) (n_children x) cs"
      unfolding xf by (rule layout_agree(2) [OF ll]) (simp_all add: l1 f1)
    from "2.IH" [OF a vn_def h1_def x_def Inr' ll1 d, folded s1_def]
    obtain h' where l: "length h' = length h1"
      and f: "\<forall>b. b < Suc a \<or> Suc a + sum_list (map count cs) \<le> b \<longrightarrow> h' ! b = h1 ! b"
      and c: "case varTraverse_children cs s1 of
            Inl e \<Rightarrow> varTraverse_list fuel h1 (n_children x) s1 = Some (h', Inl e)
          | Inr (ts', s') \<Rightarrow>
              varTraverse_list fuel h1 (n_children x) s1 = Some (h', Inr s')
              \<and> layout_list h' (Suc a) (n_children x) ts'
              \<and> map count ts' = map count cs \<and> map depth ts' = map depth cs"
      by blast
    have len: "length h' = length h" using l l1 by simp
    have frame: "\<forall>b. b < a \<or> a + count t \<le> b \<longrightarrow> h' ! b = h ! b"
      using f f1 t by auto
    have ha: "h' ! a = x" using f by (simp add: x_def)
    show ?thesis
    proof (cases "varTraverse_children cs s1")
      case (Inl e)
      with c pure heap have "varTraverse t s = Inl e"
        "varTraverse_h (Suc fuel) h a s = Some (h', Inl e)"
        by simp_all
      with len frame show ?thesis by (intro exI [of _ h']) simp
    next
      case (Inr res)
      obtain cs' s2 where res: "res = (cs', s2)" by (cases res)
      from c Inr res have r1: "varTraverse_list fuel h1 (n_children x) s1 = Some (h', Inr s2)"
        and r2: "layout_list h' (Suc a) (n_children x) cs'"
        and r3: "map count cs' = map count cs" and r4: "map depth cs' = map depth cs"
        by simp_all
      let ?t' = "Tree i (Some vn) cs' na fn r"
      have p: "varTraverse t s = Inr (?t', s2)" using pure Inr res by simp
      have q: "varTraverse_h (Suc fuel) h a s = Some (h', Inr s2)" using heap r1 by simp
      have "layout h' a ?t'"
        using a len ha xf r2 by simp
      moreover have "count ?t' = count t" using r3 t by simp
      moreover have "depth ?t' = depth t" using r4 t by simp
      ultimately show ?thesis
        using p q len frame by (intro exI [of _ h']) simp
    qed
  qed
next
  case (3 fuel h s)
  then show ?case by (cases ts) simp_all
next
  case (4 fuel h c cs s)
  from "4.prems"(1) obtain t1 ts1 where ts: "ts = t1 # ts1"
    and c: "c = p" and l1: "layout h c t1" and l2: "layout_list h (p + count t1) cs ts1"
    by (cases ts) auto
  from "4.prems"(2) ts have d1: "depth t1 \<le> fuel" and d: "\<forall>t \<in> set ts1. depth t \<le> fuel"
    by simp_all
  from "4.IH"(1) [OF l1 d1]
  obtain h1 where len1: "length h1 = length h"
    and f1: "\<forall>b. b < c \<or> c + count t1 \<le> b \<longrightarrow> h1 ! b = h ! b"
    and c1: "case varTraverse t1 s of
            Inl e \<Rightarrow> varTraverse_h fuel h c s = Some (h1, Inl e)
          | Inr (t', s') \<Rightarrow>
              varTraverse_h fuel h c s = Some (h1, Inr s') \<and> layout h1 c t'
              \<and> count t' = count t1 \<and> depth t' = depth t1"
    by blast
  have frame1: "\<forall>b. b < p \<or> p + sum_list (map count ts) \<le> b \<longrightarrow> h1 ! b = h ! b"
    using f1 c ts by auto
  show ?case
  proof (cases "varTraverse t1 s")
    case (Inl e)
    with c1 ts have "varTraverse_children ts s = Inl e"
      "varTraverse_list fuel h (c # cs) s = Some (h1, Inl e)"
      by simp_all
    with len1 frame1 show ?thesis by (intro exI [of _ h1]) simp
  next
    case (Inr res)
    obtain t1' s1 where res: "res = (t1', s1)" by (cases res)
    from c1 Inr res have r1: "varTraverse_h fuel h c s = Some (h1, Inr s1)"
      and r2: "layout h1 c t1'" and r3: "count t1' = count t1" and r4: "depth t1' = depth t1"
      by simp_all
    have l2': "layout_list h1 (p + count t1) cs ts1"
      by (rule layout_agree(2) [OF l2]) (simp_all add: len1 f1 c)
    from "4.IH"(2) [OF r1 refl refl l2' d]
    obtain h2 where len2: "length h2 = length h1"
      and f2: "\<forall>b. b < p + count t1 \<or> p + count t1 + sum_list (map count ts1) \<le> b
                  \<longrightarrow> h2 ! b = h1 ! b"
      and c2: "case varTraverse_children ts1 s1 of
            Inl e \<Rightarrow> varTraverse_list fuel h1 cs s1 = Some (h2, Inl e)
          | Inr (ts', s') \<Rightarrow>
              varTraverse_list fuel h1 cs s1 = Some (h2, Inr s') \<and> layout_list h2 (p + count t1) cs ts'
              \<and> map count ts' = map count ts1 \<and> map depth ts' = map depth ts1"
      by blast
    have len: "length h2 = length h" using len1 len2 by simp
    have frame: "\<forall>b. b < p \<or> p + sum_list (map count ts) \<le> b \<longrightarrow> h2 ! b = h ! b"
      using f1 f2 c ts by auto
    have heap: "varTraverse_list fuel h (c # cs) s = varTraverse_list fuel h1 cs s1"
      using r1 by simp
    have pure: "varTraverse_children ts s =
      (case varTraverse_children ts1 s1 of
         Inl e \<Rightarrow> Inl e
       | Inr (cs', s'') \<Rightarrow> Inr (t1' # cs', s''))"
      using Inr res ts by simp
    show ?thesis
    proof (cases "varTraverse_children ts1 s1")
      case (Inl e)
      with c2 heap pure have "varTraverse_children ts s = Inl e"
        "varTraverse_list fuel h (c # cs) s = Some (h2, Inl e)"
        by simp_all
      with len frame show ?thesis by (intro exI [of _ h2]) simp
    next
      case (Inr res2)
      obtain ts1' s2 where res2: "res2 = (ts1', s2)" by (cases res2)
      from c2 Inr res2 have q1: "varTraverse_list fuel h1 cs s1 = Some (h2, Inr s2)"
        and q2: "layout_list h2 (p + count t1) cs ts1'"
        and q3: "map count ts1' = map count ts1" and q4: "map depth ts1' = map depth ts1"
        by simp_all
      have "layout h2 c t1'"
        by (rule layout_agree(1) [OF r2]) (simp_all add: len2 f2 c r3)
      then have "layout_list h2 p (c # cs) (t1' # ts1')"
        using c q2 r3 by simp
      moreover have "varTraverse_children ts s = Inr (t1' # ts1', s2)"
        using pure Inr res2 by simp
      moreover have "varTraverse_list fuel h (c # cs) s = Some (h2, Inr s2)"
        using heap q1 by simp
      moreover have "map count (t1' # ts1') = map count ts"
        "map depth (t1' # ts1') = map depth ts"
        using q3 q4 r3 r4 ts by simp_all
      ultimately show ?thesis
        using len frame by (intro exI [of _ h2]) (simp del: layout_list.simps list.map)
    qed
  qed
qed

lemma lambdaRealizationOfTree_h_eq:
  assumes "repr h a t" and "depth t \<le> fuel"
  shows "\<exists>h'. lambdaRealizationOfTree_h fuel h a initial
                 = Some (h', lambdaRealizationOfTree t initial)
           \<and> length h \<le> length h' \<and> (\<forall>b < length h. h' ! b = h ! b)"
proof -
  let ?s0 = "\<lparr>var_i = 0, interiorVars = [], substitutionVars = []\<rparr>"
  from deepcopy_layout(1) [OF assms]
  obtain h1 where dc: "deepcopy fuel h a = Some (length h, h1)"
    and l1: "length h1 = length h + count t"
    and p1: "\<forall>b < length h. h1 ! b = h ! b" and lay: "layout h1 (length h) t"
    by blast
  from varTraverse_h_eq(1) [OF lay assms(2), of ?s0]
  obtain h2 where l2: "length h2 = length h1"
    and f2: "\<forall>b. b < length h \<or> length h + count t \<le> b \<longrightarrow> h2 ! b = h1 ! b"
    and c: "case varTraverse t ?s0 of
              Inl e \<Rightarrow> varTraverse_h fuel h1 (length h) ?s0 = Some (h2, Inl e)
            | Inr (t', s') \<Rightarrow>
                varTraverse_h fuel h1 (length h) ?s0 = Some (h2, Inr s') \<and> layout h2 (length h) t'
                \<and> count t' = count t \<and> depth t' = depth t"
    by blast
  have len: "length h \<le> length h2" using l1 l2 by simp
  have pre: "\<forall>b < length h. h2 ! b = h ! b" using p1 f2 by simp
  have "lambdaRealizationOfTree_h fuel h a initial = Some (h2, lambdaRealizationOfTree t initial)"
  proof (cases "varTraverse t ?s0")
    case (Inl e)
    with c dc show ?thesis
      by (simp add: lambdaRealizationOfTree_h_def lambdaRealizationOfTree_def)
  next
    case (Inr res)
    obtain t' s' where res: "res = (t', s')" by (cases res)
    from c Inr res have vt: "varTraverse_h fuel h1 (length h) ?s0 = Some (h2, Inr s')"
      and lay': "layout h2 (length h) t'" and d: "depth t' = depth t"
      by simp_all
    have ce: "constructExpression_h fuel h2 (length h) = Some (constructExpression t')"
      using constructExpression_h_eq(1) [OF layout_repr(1) [OF lay']] assms(2) d by simp
    show ?thesis
      using dc vt ce Inr res
      by (cases "constructExpression t'")
         (simp_all add: lambdaRealizationOfTree_h_def lambdaRealizationOfTree_def Let_def)
  qed
  with len pre show ?thesis by blast
qed

text \<open>
  C8: if the store holds the tree \<open>t\<close> at the address passed to \<open>lambdaRealizationOfTree\<close>
  and the fuel covers the depth of \<open>t\<close>, the call comes back with what the function on tree
  values gives for \<open>t\<close> (the term or the exception), every object that existed before the
  call is unchanged, and the store still holds the same \<open>t\<close> at that address, \<open>varname\<close>
  fields included: all writes go to objects created by the copy.
\<close>

theorem C8_realization_keeps_tree:
  assumes "repr h a t" and "depth t \<le> fuel"
  shows "\<exists>h'. lambdaRealizationOfTree_h fuel h a initial
                 = Some (h', lambdaRealizationOfTree t initial)
           \<and> length h \<le> length h' \<and> (\<forall>b < length h. h' ! b = h ! b) \<and> repr h' a t"
proof -
  from lambdaRealizationOfTree_h_eq [OF assms, of initial]
  obtain h' where r: "lambdaRealizationOfTree_h fuel h a initial
                        = Some (h', lambdaRealizationOfTree t initial)"
    and l: "length h \<le> length h'" and p: "\<forall>b < length h. h' ! b = h ! b"
    by blast
  have "repr h' a t" by (rule repr_agree(1) [OF assms(1) l p])
  with r l p show ?thesis by blast
qed

lemma adv_heap_repr: "repr adv_heap 0 adv_tree" "depth adv_tree \<le> 2"
  by (simp_all add: adv_heap_def adv_tree_def)

lemma adv_tree_realization:
  "lambdaRealizationOfTree adv_tree False
     = Inr ''lambda lvar0 lvar1 lvar2 lvar. lvar0 (VP_2 (lvar1 (ADV_0 )) (lvar2 lvar))''"
  by code_simp

theorem C8_realization_keeps_tree_witness:
  "repr adv_heap 0 adv_tree \<and> depth adv_tree \<le> 2
   \<and> (\<exists>h'. lambdaRealizationOfTree_h 2 adv_heap 0 False
               = Some (h', Inr ''lambda lvar0 lvar1 lvar2 lvar. lvar0 (VP_2 (lvar1 (ADV_0 )) (lvar2 lvar))'')
         \<and> take 3 h' = adv_heap \<and> repr h' 0 adv_tree)"
proof -
  from C8_realization_keeps_tree [OF adv_heap_repr, of False]
  obtain h' where a: "lambdaRealizationOfTree_h 2 adv_heap 0 False
                        = Some (h', lambdaRealizationOfTree adv_tree False)"
    and l: "length adv_heap \<le> length h'" and p: "\<forall>b < length adv_heap. h' ! b = adv_heap ! b"
    and q: "repr h' 0 adv_tree"
    by blast
  have "length adv_heap = 3" by (simp add: adv_heap_def)
  with l p have "take 3 h' = adv_heap"
    by (intro nth_equalityI) auto
  with a q adv_heap_repr show ?thesis
    unfolding adv_tree_realization by blast
qed

end
